theory Spec2Isabelle
  imports Main
begin

section \<open>A formula and problem store behind an HTTP facade\<close>

text \<open>
  The program is a single Express server file. It keeps three SQLite tables
  (\<^verbatim>\<open>submitted_content\<close>, \<^verbatim>\<open>formulas\<close>, \<^verbatim>\<open>problems\<close>), forwards prompts to a
  text-generation service and answers every request with a JSON envelope.

  The embedding follows the handlers line by line. What the handlers rely on but do not
  contain (the JSON codec of the language, JavaScript truthiness, the parameter binding of
  the database driver and the column rules of the database engine) is modelled next to
  them, each part with the scope it covers:
  \<^item> numbers are the integers; fractions, and integers so large that the language or
    the driver no longer treats them as integers, are outside the embedding;
  \<^item> strings are lists of 8-bit characters, read as code units;
  \<^item> an object is the list of its properties in enumeration order, so a well-formed
    object has pairwise different property names;
  \<^item> requests are handled one after the other; the interleaving of two requests
    inside one handler is not modelled, but the lookup and the write of
    \<^verbatim>\<open>save-formula\<close> are separate functions, as they are separate callbacks.
\<close>

subsection \<open>JSON values and JavaScript truthiness\<close>

text \<open>
  A request body, a response body and every composite field is a JSON value.
\<close>

datatype json =
    JNull
  | JBool bool
  | JNum int
  | JStr string
  | JArr "json list"
  | JObj "(string \<times> json) list"

text \<open>
  \<^verbatim>\<open>!x\<close> and \<^verbatim>\<open>x ? a : b\<close> test truthiness: \<^verbatim>\<open>null\<close>, \<^verbatim>\<open>false\<close>, \<^verbatim>\<open>0\<close> and the empty
  string are falsy, every array and object is truthy. A field the body does not have is
  \<^verbatim>\<open>undefined\<close>, modelled as \<open>None\<close>, and falsy as well.
\<close>

fun truthy :: "json \<Rightarrow> bool" where
  "truthy JNull = False"
| "truthy (JBool b) = b"
| "truthy (JNum n) = (n \<noteq> 0)"
| "truthy (JStr s) = (s \<noteq> [])"
| "truthy (JArr vs) = True"
| "truthy (JObj ms) = True"

fun get_field :: "json \<Rightarrow> string \<Rightarrow> json option" where
  "get_field (JObj ms) k = map_of ms k"
| "get_field v k = None"

definition truthy_opt :: "json option \<Rightarrow> bool" where
  "truthy_opt x = (case x of None \<Rightarrow> False | Some v \<Rightarrow> truthy v)"

definition js_or :: "json option \<Rightarrow> json option \<Rightarrow> json option" where
  "js_or a b = (if truthy_opt a then a else b)"

subsection \<open>Decimal numerals\<close>

fun show_nat :: "nat \<Rightarrow> string" where
  "show_nat n = (if n < 10 then [char_of (48 + n)] else show_nat (n div 10) @ [char_of (48 + n mod 10)])"

declare show_nat.simps [simp del]

definition show_int :: "int \<Rightarrow> string" where
  "show_int i = (if i < 0 then CHR ''-'' # show_nat (nat (- i)) else show_nat (nat i))"

definition is_digit :: "char \<Rightarrow> bool" where
  "is_digit c = (48 \<le> (of_char c :: nat) \<and> (of_char c :: nat) \<le> 57)"

definition digit_val :: "char \<Rightarrow> nat" where
  "digit_val c = of_char c - 48"

definition read_nat :: "string \<Rightarrow> nat" where
  "read_nat ds = foldl (\<lambda>a c. 10 * a + digit_val c) 0 ds"

subsection \<open>Conversion to string\<close>

text \<open>
  The conversion used by template literals (and by \<^verbatim>\<open>JSON.parse\<close> on its argument):
  an array is its elements joined by commas, with \<^verbatim>\<open>null\<close> elements left empty, and an
  object is the text \<^verbatim>\<open>[object Object]\<close>.
\<close>

fun js_toString :: "json \<Rightarrow> string"
and js_join :: "json list \<Rightarrow> string" where
  "js_toString JNull = ''null''"
| "js_toString (JBool b) = (if b then ''true'' else ''false'')"
| "js_toString (JNum n) = show_int n"
| "js_toString (JStr s) = s"
| "js_toString (JArr vs) = js_join vs"
| "js_toString (JObj ms) = ''[object Object]''"
| "js_join [] = []"
| "js_join [v] = (case v of JNull \<Rightarrow> [] | _ \<Rightarrow> js_toString v)"
| "js_join (v # w # vs) =
     (case v of JNull \<Rightarrow> [] | _ \<Rightarrow> js_toString v) @ '','' @ js_join (w # vs)"

definition template_text :: "json option \<Rightarrow> string" where
  "template_text x = (case x of None \<Rightarrow> ''undefined'' | Some v \<Rightarrow> js_toString v)"

subsection \<open>JSON.stringify\<close>

text \<open>
  Strings are quoted with the escapes of the language standard: the quote, the backslash,
  the five short escapes, and \<^verbatim>\<open>\u00XX\<close> with lower-case digits for the other control
  characters. Arrays and objects are written without blanks, members in property order.
\<close>

definition dquote :: char where "dquote = CHR 0x22"
definition bslash :: char where "bslash = CHR 0x5C"

definition hex_digit :: "nat \<Rightarrow> char" where
  "hex_digit n = (if n < 10 then char_of (48 + n) else char_of (87 + n))"

definition escape_char :: "char \<Rightarrow> string" where
  "escape_char c =
     (if c = dquote then [bslash, dquote]
      else if c = bslash then [bslash, bslash]
      else if c = CHR 0x08 then [bslash, CHR ''b'']
      else if c = CHR 0x0C then [bslash, CHR ''f'']
      else if c = CHR 0x0A then [bslash, CHR ''n'']
      else if c = CHR 0x0D then [bslash, CHR ''r'']
      else if c = CHR 0x09 then [bslash, CHR ''t'']
      else if (of_char c :: nat) < 32
        then [bslash, CHR ''u'', CHR ''0'', CHR ''0'',
              hex_digit (of_char c div 16), hex_digit (of_char c mod 16)]
      else [c])"

definition quote_json :: "string \<Rightarrow> string" where
  "quote_json s = dquote # concat (map escape_char s) @ [dquote]"

fun stringify :: "json \<Rightarrow> string"
and stringify_elems :: "json list \<Rightarrow> string"
and stringify_members :: "(string \<times> json) list \<Rightarrow> string" where
  "stringify JNull = ''null''"
| "stringify (JBool b) = (if b then ''true'' else ''false'')"
| "stringify (JNum n) = show_int n"
| "stringify (JStr s) = quote_json s"
| "stringify (JArr vs) = ''['' @ stringify_elems vs @ '']''"
| "stringify (JObj ms) = ''{'' @ stringify_members ms @ ''}''"
| "stringify_elems [] = []"
| "stringify_elems [v] = stringify v"
| "stringify_elems (v # w # vs) = stringify v @ '','' @ stringify_elems (w # vs)"
| "stringify_members [] = []"
| "stringify_members [(k, v)] = quote_json k @ '':'' @ stringify v"
| "stringify_members ((k, v) # m # ms) =
     quote_json k @ '':'' @ stringify v @ '','' @ stringify_members (m # ms)"

definition JSON_stringify :: "json \<Rightarrow> string" where
  "JSON_stringify v = stringify v"

text \<open>
  \<^verbatim>\<open>x ? JSON.stringify(x) : null\<close>, the expression every handler applies to a composite
  field before it binds it.
\<close>

definition stringify_or_null :: "json option \<Rightarrow> json option" where
  "stringify_or_null x =
     (case x of
        None \<Rightarrow> Some JNull
      | Some v \<Rightarrow> if truthy v then Some (JStr (JSON_stringify v)) else Some JNull)"

subsection \<open>JSON.parse\<close>

text \<open>
  The parser accepts the JSON grammar: blanks around tokens, the three literals, strings
  with all escapes, arrays, objects, and integers without leading zeros. A number with a
  fraction or an exponent is outside the embedding and is refused, and so is an escape
  \<^verbatim>\<open>\uXXXX\<close> beyond the 8-bit range. A raw control character inside a string is a
  syntax error. The result \<open>None\<close> stands for the \<^verbatim>\<open>SyntaxError\<close> the parser throws.
\<close>

definition is_ws :: "char \<Rightarrow> bool" where
  "is_ws c = (c = CHR '' '' \<or> c = CHR 0x09 \<or> c = CHR 0x0A \<or> c = CHR 0x0D)"

definition skip_ws :: "string \<Rightarrow> string" where
  "skip_ws s = dropWhile is_ws s"

definition hex_val :: "char \<Rightarrow> nat option" where
  "hex_val c =
     (let n = (of_char c :: nat) in
      if 48 \<le> n \<and> n \<le> 57 then Some (n - 48)
      else if 97 \<le> n \<and> n \<le> 102 then Some (n - 87)
      else if 65 \<le> n \<and> n \<le> 70 then Some (n - 55)
      else None)"

definition hex4 :: "char \<Rightarrow> char \<Rightarrow> char \<Rightarrow> char \<Rightarrow> char option" where
  "hex4 a b c d =
     (case (hex_val a, hex_val b, hex_val c, hex_val d) of
        (Some x, Some y, Some z, Some w) \<Rightarrow>
          (let n = ((x * 16 + y) * 16 + z) * 16 + w
           in if n < 256 then Some (char_of n) else None)
      | _ \<Rightarrow> None)"

definition unescape :: "char \<Rightarrow> char option" where
  "unescape e =
     (if e = dquote then Some dquote
      else if e = bslash then Some bslash
      else if e = CHR ''/'' then Some (CHR ''/'')
      else if e = CHR ''b'' then Some (CHR 0x08)
      else if e = CHR ''f'' then Some (CHR 0x0C)
      else if e = CHR ''n'' then Some (CHR 0x0A)
      else if e = CHR ''r'' then Some (CHR 0x0D)
      else if e = CHR ''t'' then Some (CHR 0x09)
      else None)"

definition consed :: "'a \<Rightarrow> ('a list \<times> 'b) option \<Rightarrow> ('a list \<times> 'b) option" where
  "consed x r = (case r of None \<Rightarrow> None | Some (xs, rest) \<Rightarrow> Some (x # xs, rest))"

fun parse_string_body :: "string \<Rightarrow> (string \<times> string) option" where
  "parse_string_body [] = None"
| "parse_string_body (c # r) =
     (if c = dquote then Some ([], r)
      else if c = bslash then
        (case r of
           [] \<Rightarrow> None
         | e # r1 \<Rightarrow>
             if e = CHR ''u'' then
               (case r1 of
                  h1 # h2 # h3 # h4 # r2 \<Rightarrow>
                    (case hex4 h1 h2 h3 h4 of
                       None \<Rightarrow> None
                     | Some ch \<Rightarrow> consed ch (parse_string_body r2))
                | _ \<Rightarrow> None)
             else
               (case unescape e of
                  None \<Rightarrow> None
                | Some ch \<Rightarrow> consed ch (parse_string_body r1)))
      else if (of_char c :: nat) < 32 then None
      else consed c (parse_string_body r))"

definition parse_digits :: "string \<Rightarrow> (nat \<times> string) option" where
  "parse_digits s =
     (case s of
        [] \<Rightarrow> None
      | d # r \<Rightarrow>
          if \<not> is_digit d then None
          else
            (let ds = (if d = CHR ''0'' then [d] else takeWhile is_digit s);
                 rest = (if d = CHR ''0'' then r else dropWhile is_digit s)
             in if rest \<noteq> [] \<and> hd rest \<in> {CHR ''.'', CHR ''e'', CHR ''E''} then None
                else Some (read_nat ds, rest)))"

definition parse_number :: "string \<Rightarrow> (int \<times> string) option" where
  "parse_number s =
     (case s of
        [] \<Rightarrow> None
      | c # r \<Rightarrow>
          if c = CHR ''-'' then
            (case parse_digits r of
               None \<Rightarrow> None
             | Some (n, rest) \<Rightarrow> Some (- int n, rest))
          else
            (case parse_digits s of
               None \<Rightarrow> None
             | Some (n, rest) \<Rightarrow> Some (int n, rest)))"

definition strip_prefix :: "string \<Rightarrow> string \<Rightarrow> string option" where
  "strip_prefix p s = (if take (length p) s = p then Some (drop (length p) s) else None)"

definition literal :: "string \<Rightarrow> json \<Rightarrow> string \<Rightarrow> (json \<times> string) option" where
  "literal p v s = (case strip_prefix p s of None \<Rightarrow> None | Some r \<Rightarrow> Some (v, r))"

text \<open>
  An object is built by defining its properties in source order: a repeated name keeps
  its first position and takes the later content.
\<close>

fun obj_set :: "(string \<times> json) list \<Rightarrow> string \<Rightarrow> json \<Rightarrow> (string \<times> json) list" where
  "obj_set [] k v = [(k, v)]"
| "obj_set ((k', v') # ps) k v = (if k' = k then (k, v) # ps else (k', v') # obj_set ps k v)"

definition obj_of_members :: "(string \<times> json) list \<Rightarrow> (string \<times> json) list" where
  "obj_of_members ms = foldl (\<lambda>ob (k, v). obj_set ob k v) [] ms"

text \<open>
  The recursion of the parser is bounded by a counter. \<open>JSON_parse\<close> starts it above
  the length of the text, which no nesting can exceed, so the counter never decides the
  result (lemma \<open>JSON_roundtrip\<close> below relies on this bound).
\<close>

fun parse_value :: "nat \<Rightarrow> string \<Rightarrow> (json \<times> string) option"
and parse_elems :: "nat \<Rightarrow> string \<Rightarrow> (json list \<times> string) option"
and parse_members :: "nat \<Rightarrow> string \<Rightarrow> ((string \<times> json) list \<times> string) option" where
  "parse_value 0 s = None"
| "parse_value (Suc n) s =
     (case skip_ws s of
        [] \<Rightarrow> None
      | c # r \<Rightarrow>
          if c = CHR ''['' then
            (case skip_ws r of
               [] \<Rightarrow> None
             | d # r1 \<Rightarrow>
                 if d = CHR '']'' then Some (JArr [], r1)
                 else (case parse_elems n r of
                         None \<Rightarrow> None
                       | Some (vs, r2) \<Rightarrow> Some (JArr vs, r2)))
          else if c = CHR ''{'' then
            (case skip_ws r of
               [] \<Rightarrow> None
             | d # r1 \<Rightarrow>
                 if d = CHR ''}'' then Some (JObj [], r1)
                 else (case parse_members n r of
                         None \<Rightarrow> None
                       | Some (ms, r2) \<Rightarrow> Some (JObj (obj_of_members ms), r2)))
          else if c = dquote then
            (case parse_string_body r of
               None \<Rightarrow> None
             | Some (str, r1) \<Rightarrow> Some (JStr str, r1))
          else if c = CHR ''n'' then literal ''null'' JNull (c # r)
          else if c = CHR ''t'' then literal ''true'' (JBool True) (c # r)
          else if c = CHR ''f'' then literal ''false'' (JBool False) (c # r)
          else (case parse_number (c # r) of
                  None \<Rightarrow> None
                | Some (i, r1) \<Rightarrow> Some (JNum i, r1)))"
| "parse_elems 0 s = None"
| "parse_elems (Suc n) s =
     (case parse_value n s of
        None \<Rightarrow> None
      | Some (v, r) \<Rightarrow>
          (case skip_ws r of
             [] \<Rightarrow> None
           | c # r1 \<Rightarrow>
               if c = CHR '','' then consed v (parse_elems n r1)
               else if c = CHR '']'' then Some ([v], r1)
               else None))"
| "parse_members 0 s = None"
| "parse_members (Suc n) s =
     (case skip_ws s of
        [] \<Rightarrow> None
      | q # r \<Rightarrow>
          if q \<noteq> dquote then None
          else
            (case parse_string_body r of
               None \<Rightarrow> None
             | Some (k, r1) \<Rightarrow>
                 (case skip_ws r1 of
                    [] \<Rightarrow> None
                  | c # r2 \<Rightarrow>
                      if c \<noteq> CHR '':'' then None
                      else
                        (case parse_value n r2 of
                           None \<Rightarrow> None
                         | Some (v, r3) \<Rightarrow>
                             (case skip_ws r3 of
                                [] \<Rightarrow> None
                              | d # r4 \<Rightarrow>
                                  if d = CHR '','' then consed (k, v) (parse_members n r4)
                                  else if d = CHR ''}'' then Some ([(k, v)], r4)
                                  else None)))))"

definition JSON_parse :: "string \<Rightarrow> json option" where
  "JSON_parse s =
     (case parse_value (Suc (length s)) s of
        None \<Rightarrow> None
      | Some (v, r) \<Rightarrow> if skip_ws r = [] then Some v else None)"

text \<open>
  A JSON value as the language holds it: no object has two properties of one name.
\<close>

fun wf_json :: "json \<Rightarrow> bool"
and wf_elems :: "json list \<Rightarrow> bool"
and wf_members :: "(string \<times> json) list \<Rightarrow> bool" where
  "wf_json (JArr vs) = wf_elems vs"
| "wf_json (JObj ms) = (distinct (map fst ms) \<and> wf_members ms)"
| "wf_json v = True"
| "wf_elems [] = True"
| "wf_elems (v # vs) = (wf_json v \<and> wf_elems vs)"
| "wf_members [] = True"
| "wf_members ((k, v) # ms) = (wf_json v \<and> wf_members ms)"

subsection \<open>The database engine\<close>

text \<open>
  A stored datum is \<^verbatim>\<open>NULL\<close>, an integer or a text. A column has a name, an affinity
  (\<^verbatim>\<open>TEXT\<close> columns are \<open>TEXT\<close>; \<^verbatim>\<open>BOOLEAN\<close> and \<^verbatim>\<open>DATETIME\<close> columns are \<open>NUMERIC\<close>),
  its constraints and its default. A row lists its columns in declaration order, the
  \<^verbatim>\<open>id\<close> first. A table keeps its rows in insertion order together with the largest
  row id it ever gave out, which \<^verbatim>\<open>AUTOINCREMENT\<close> never reuses.
\<close>

datatype sqlval = SqlNull | SqlInt int | SqlText string

datatype affinity = TEXT | NUMERIC

datatype dflt = NoDefault | DefaultValue sqlval | DefaultCurrentTimestamp

record column =
  cname :: string
  caffinity :: affinity
  not_null :: bool
  uniq :: bool
  cdefault :: dflt

record schema =
  tname :: string
  columns :: "column list"

type_synonym row = "(string \<times> sqlval) list"

record table =
  rows :: "row list"
  seq :: int

text \<open>
  The driver binds a statement parameter by its JavaScript type: a string as text, a
  boolean as 1 or 0, an integer as integer, \<^verbatim>\<open>null\<close> as \<^verbatim>\<open>NULL\<close>, any object or array as
  the text \<^verbatim>\<open>[object Object]\<close>. It skips \<^verbatim>\<open>undefined\<close>, and a parameter left unbound
  is \<^verbatim>\<open>NULL\<close>.
\<close>

definition bind_param :: "json option \<Rightarrow> sqlval" where
  "bind_param x =
     (case x of
        None \<Rightarrow> SqlNull
      | Some JNull \<Rightarrow> SqlNull
      | Some (JBool b) \<Rightarrow> SqlInt (if b then 1 else 0)
      | Some (JNum n) \<Rightarrow> SqlInt n
      | Some (JStr s) \<Rightarrow> SqlText s
      | Some (JArr vs) \<Rightarrow> SqlText ''[object Object]''
      | Some (JObj ms) \<Rightarrow> SqlText ''[object Object]'')"

text \<open>
  Affinity: a \<open>TEXT\<close> column stores an integer as its decimal text; a \<open>NUMERIC\<close> column
  stores a text that spells an integer as that integer. (Texts that spell other numeric
  forms would become reals, which the embedding does not have.)
\<close>

definition int_literal :: "string \<Rightarrow> int option" where
  "int_literal s =
     (let neg = (s \<noteq> [] \<and> hd s = CHR ''-'');
          ds = (if s \<noteq> [] \<and> (hd s = CHR ''-'' \<or> hd s = CHR ''+'') then tl s else s)
      in if ds \<noteq> [] \<and> list_all is_digit ds
         then Some (if neg then - int (read_nat ds) else int (read_nat ds))
         else None)"

definition apply_affinity :: "affinity \<Rightarrow> sqlval \<Rightarrow> sqlval" where
  "apply_affinity a v =
     (case (a, v) of
        (TEXT, SqlInt n) \<Rightarrow> SqlText (show_int n)
      | (NUMERIC, SqlText s) \<Rightarrow> (case int_literal s of Some n \<Rightarrow> SqlInt n | None \<Rightarrow> SqlText s)
      | _ \<Rightarrow> v)"

definition js_of_sql :: "sqlval \<Rightarrow> json" where
  "js_of_sql v = (case v of SqlNull \<Rightarrow> JNull | SqlInt n \<Rightarrow> JNum n | SqlText s \<Rightarrow> JStr s)"

definition col :: "row \<Rightarrow> string \<Rightarrow> sqlval" where
  "col r c = (case map_of r c of None \<Rightarrow> SqlNull | Some v \<Rightarrow> v)"

definition row_id :: "row \<Rightarrow> int" where
  "row_id r = (case col r ''id'' of SqlInt n \<Rightarrow> n | _ \<Rightarrow> 0)"

definition max_rowid :: "row list \<Rightarrow> int" where
  "max_rowid rs = foldr (\<lambda>r m. max (row_id r) m) rs 0"

definition next_rowid :: "table \<Rightarrow> int" where
  "next_rowid t = max (seq t) (max_rowid (rows t)) + 1"

text \<open>
  A statement fails with a constraint violation, or with an error of the driver or the
  file system. The latter is not determined by the program: the environment of a request
  says whether its read and its write fail (\<open>read_fault\<close>, \<open>write_fault\<close> below).
\<close>

datatype dberr =
    NotNullFailed string string
  | UniqueFailed string string
  | DriverError string

fun err_message :: "dberr \<Rightarrow> string" where
  "err_message (NotNullFailed t c) = ''SQLITE_CONSTRAINT: NOT NULL constraint failed: '' @ t @ ''.'' @ c"
| "err_message (UniqueFailed t c) = ''SQLITE_CONSTRAINT: UNIQUE constraint failed: '' @ t @ ''.'' @ c"
| "err_message (DriverError m) = m"

text \<open>
  \<^verbatim>\<open>db.run(sql, [p, ...], callback)\<close> hands the driver the parameters as one array, and
  each element is bound as above. \<^verbatim>\<open>stmt.run(p, q, ..., callback)\<close> hands them over one by
  one, and there the driver inspects the first: when it is an array, that array is the
  parameter list and the other arguments are ignored; when it is an object, its
  properties are named parameters, addressed by position when the name is a numeral; a
  name or position the statement does not have fails the binding (\<^verbatim>\<open>SQLITE_RANGE\<close>).
  Only in the remaining case are the arguments bound position by position. (Property
  names that the language reads as numbers without their being decimal numerals are
  outside the embedding.)
\<close>

definition positional :: "json option \<Rightarrow> bool" where
  "positional x =
     (case x of
        Some (JArr vs) \<Rightarrow> False
      | Some (JObj ms) \<Rightarrow> False
      | _ \<Rightarrow> True)"

definition range_error :: dberr where
  "range_error = DriverError ''SQLITE_RANGE: column index out of range''"

definition placeholder :: "nat \<Rightarrow> string \<Rightarrow> nat option" where
  "placeholder n k =
     (if k \<noteq> [] \<and> list_all is_digit k \<and> show_nat (read_nat k) = k \<and>
         1 \<le> read_nat k \<and> read_nat k \<le> n
      then Some (read_nat k) else None)"

fun bind_named :: "nat \<Rightarrow> (string \<times> json) list \<Rightarrow> sqlval list \<Rightarrow> dberr + sqlval list" where
  "bind_named n [] acc = Inr acc"
| "bind_named n ((k, v) # ms) acc =
     (case placeholder n k of
        None \<Rightarrow> Inl range_error
      | Some p \<Rightarrow> bind_named n ms (acc[p - 1 := bind_param (Some v)]))"

definition bind_arguments :: "json option list \<Rightarrow> dberr + sqlval list" where
  "bind_arguments args =
     (case args of
        Some (JArr vs) # rest \<Rightarrow>
          if length vs \<le> length args
          then Inr (map (\<lambda>v. bind_param (Some v)) vs @
                    replicate (length args - length vs) SqlNull)
          else Inl range_error
      | Some (JObj ms) # rest \<Rightarrow>
          bind_named (length args) ms (replicate (length args) SqlNull)
      | _ \<Rightarrow> Inr (map bind_param args))"

definition column_affinity :: "schema \<Rightarrow> string \<Rightarrow> affinity" where
  "column_affinity sch c =
     (case find (\<lambda>cd. cname cd = c) (columns sch) of
        None \<Rightarrow> NUMERIC
      | Some cd \<Rightarrow> caffinity cd)"

definition default_value :: "string \<Rightarrow> column \<Rightarrow> sqlval" where
  "default_value now cd =
     apply_affinity (caffinity cd)
       (case cdefault cd of
          NoDefault \<Rightarrow> SqlNull
        | DefaultValue v \<Rightarrow> v
        | DefaultCurrentTimestamp \<Rightarrow> SqlText now)"

definition new_row :: "schema \<Rightarrow> string \<Rightarrow> int \<Rightarrow> (string \<times> sqlval) list \<Rightarrow> row" where
  "new_row sch now rid binds =
     (''id'', SqlInt rid) #
     map (\<lambda>cd. (cname cd,
                 case map_of binds (cname cd) of
                   None \<Rightarrow> default_value now cd
                 | Some v \<Rightarrow> apply_affinity (caffinity cd) v))
         (columns sch)"

definition violates_not_null :: "schema \<Rightarrow> row \<Rightarrow> column option" where
  "violates_not_null sch r =
     find (\<lambda>cd. not_null cd \<and> col r (cname cd) = SqlNull) (columns sch)"

definition violates_unique :: "schema \<Rightarrow> row list \<Rightarrow> row \<Rightarrow> column option" where
  "violates_unique sch rs r =
     find (\<lambda>cd. uniq cd \<and> col r (cname cd) \<noteq> SqlNull \<and>
                 list_ex (\<lambda>r'. col r' (cname cd) = col r (cname cd)) rs)
          (columns sch)"

text \<open>
  \<^verbatim>\<open>INSERT INTO t (columns) VALUES (?, ...)\<close>: a column the statement names takes the bound
  parameter, any other column its default. \<^verbatim>\<open>NOT NULL\<close> is checked before
  \<^verbatim>\<open>UNIQUE\<close>. The result carries the new row id (\<^verbatim>\<open>this.lastID\<close>).
\<close>

definition sql_insert ::
  "string option \<Rightarrow> schema \<Rightarrow> string \<Rightarrow> (string \<times> sqlval) list \<Rightarrow> table \<Rightarrow> dberr + (int \<times> table)" where
  "sql_insert fault sch now binds t =
     (case fault of
        Some m \<Rightarrow> Inl (DriverError m)
      | None \<Rightarrow>
          (let rid = next_rowid t; r = new_row sch now rid binds
           in case violates_not_null sch r of
                Some cd \<Rightarrow> Inl (NotNullFailed (tname sch) (cname cd))
              | None \<Rightarrow>
                  (case violates_unique sch (rows t) r of
                     Some cd \<Rightarrow> Inl (UniqueFailed (tname sch) (cname cd))
                   | None \<Rightarrow> Inr (rid, t\<lparr>rows := rows t @ [r], seq := rid\<rparr>))))"

text \<open>
  \<^verbatim>\<open>UPDATE t SET c = ?, ... WHERE w = ?\<close> rewrites the named columns of every row that
  matches; the comparison applies the affinity of the column to the parameter and is
  never true for \<^verbatim>\<open>NULL\<close>.
\<close>

definition where_eq :: "schema \<Rightarrow> string \<Rightarrow> sqlval \<Rightarrow> row \<Rightarrow> bool" where
  "where_eq sch c v r =
     (let v' = apply_affinity (column_affinity sch c) v
      in v' \<noteq> SqlNull \<and> col r c = v')"

definition assign :: "schema \<Rightarrow> (string \<times> sqlval) list \<Rightarrow> row \<Rightarrow> row" where
  "assign sch sets r =
     map (\<lambda>(c, old). (c, case map_of sets c of
                             None \<Rightarrow> old
                           | Some v \<Rightarrow> apply_affinity (column_affinity sch c) v)) r"

definition unique_broken :: "schema \<Rightarrow> (string \<times> sqlval) list \<Rightarrow> row list \<Rightarrow> column option" where
  "unique_broken sch sets rs =
     find (\<lambda>cd. uniq cd \<and> cname cd \<in> set (map fst sets) \<and>
                 \<not> distinct (filter (\<lambda>v. v \<noteq> SqlNull) (map (\<lambda>r. col r (cname cd)) rs)))
          (columns sch)"

definition sql_update ::
  "string option \<Rightarrow> schema \<Rightarrow> (string \<times> sqlval) list \<Rightarrow> string \<Rightarrow> sqlval \<Rightarrow> table \<Rightarrow> dberr + table" where
  "sql_update fault sch sets wc wv t =
     (case fault of
        Some m \<Rightarrow> Inl (DriverError m)
      | None \<Rightarrow>
          (let rs = map (\<lambda>r. if where_eq sch wc wv r then assign sch sets r else r) (rows t)
           in case find (\<lambda>r. where_eq sch wc wv r) (rows t) of
                None \<Rightarrow> Inr t
              | Some r0 \<Rightarrow>
                  (case violates_not_null sch (assign sch sets r0) of
                     Some cd \<Rightarrow> Inl (NotNullFailed (tname sch) (cname cd))
                   | None \<Rightarrow>
                       (case unique_broken sch sets rs of
                          Some cd \<Rightarrow> Inl (UniqueFailed (tname sch) (cname cd))
                        | None \<Rightarrow> Inr (t\<lparr>rows := rs\<rparr>)))))"

text \<open>
  \<^verbatim>\<open>db.get\<close> yields the first matching row, projected to the selected columns, or
  nothing.
\<close>

definition sql_get ::
  "string option \<Rightarrow> schema \<Rightarrow> string list \<Rightarrow> string \<Rightarrow> sqlval \<Rightarrow> table \<Rightarrow> dberr + row option" where
  "sql_get fault sch sel wc wv t =
     (case fault of
        Some m \<Rightarrow> Inl (DriverError m)
      | None \<Rightarrow>
          Inr (map_option (\<lambda>r. filter (\<lambda>(c, v). c \<in> set sel) r)
                 (find (\<lambda>r. where_eq sch wc wv r) (rows t))))"

text \<open>
  \<^verbatim>\<open>ORDER BY\<close>: \<^verbatim>\<open>NULL\<close> sorts first, then integers, then texts byte by byte. The
  order among equal sort keys is not fixed by SQL; the model keeps one of the permitted
  orders and no theorem below depends on it.
\<close>

fun bytes_le :: "string \<Rightarrow> string \<Rightarrow> bool" where
  "bytes_le [] ys = True"
| "bytes_le (x # xs) [] = False"
| "bytes_le (x # xs) (y # ys) =
     ((of_char x :: nat) < of_char y \<or> ((of_char x :: nat) = of_char y \<and> bytes_le xs ys))"

fun sql_le :: "sqlval \<Rightarrow> sqlval \<Rightarrow> bool" where
  "sql_le SqlNull w = True"
| "sql_le (SqlInt a) SqlNull = False"
| "sql_le (SqlInt a) (SqlInt b) = (a \<le> b)"
| "sql_le (SqlInt a) (SqlText t) = True"
| "sql_le (SqlText s) (SqlText t) = bytes_le s t"
| "sql_le (SqlText s) w = False"

fun insert_sorted :: "(row \<Rightarrow> row \<Rightarrow> bool) \<Rightarrow> row \<Rightarrow> row list \<Rightarrow> row list" where
  "insert_sorted le r [] = [r]"
| "insert_sorted le r (x # xs) = (if le x r then x # insert_sorted le r xs else r # x # xs)"

definition order_by :: "(row \<Rightarrow> row \<Rightarrow> bool) \<Rightarrow> row list \<Rightarrow> row list" where
  "order_by le rs = foldl (\<lambda>acc r. insert_sorted le r acc) [] rs"

datatype direction = ASC | DESC

definition sql_all :: "string option \<Rightarrow> string \<Rightarrow> direction \<Rightarrow> table \<Rightarrow> dberr + row list" where
  "sql_all fault oc dir t =
     (case fault of
        Some m \<Rightarrow> Inl (DriverError m)
      | None \<Rightarrow>
          Inr (order_by (\<lambda>a b. case dir of
                                 ASC \<Rightarrow> sql_le (col a oc) (col b oc)
                               | DESC \<Rightarrow> sql_le (col b oc) (col a oc))
                 (rows t)))"

subsection \<open>The three tables\<close>

definition text_column :: "string \<Rightarrow> column" where
  "text_column n = \<lparr>cname = n, caffinity = TEXT, not_null = False, uniq = False, cdefault = NoDefault\<rparr>"

definition timestamp_column :: column where
  "timestamp_column =
     \<lparr>cname = ''timestamp'', caffinity = NUMERIC, not_null = False, uniq = False,
      cdefault = DefaultCurrentTimestamp\<rparr>"

definition submitted_content_schema :: schema where
  "submitted_content_schema =
     \<lparr>tname = ''submitted_content'',
      columns =
        [(text_column ''prompt'')\<lparr>not_null := True\<rparr>,
         text_column ''schema'',
         text_column ''ai_response'',
         timestamp_column]\<rparr>"

definition formulas_schema :: schema where
  "formulas_schema =
     \<lparr>tname = ''formulas'',
      columns =
        [(text_column ''key'')\<lparr>not_null := True, uniq := True\<rparr>,
         text_column ''category'',
         text_column ''subject'',
         text_column ''topic'',
         text_column ''sub_topic'',
         text_column ''formula'',
         text_column ''description'',
         text_column ''variables'',
         text_column ''connections'',
         text_column ''examples'',
         \<lparr>cname = ''verified_by_ai'', caffinity = NUMERIC, not_null = False, uniq = False,
          cdefault = DefaultValue (SqlInt 0)\<rparr>,
         text_column ''custom_user'',
         timestamp_column]\<rparr>"

definition problems_schema :: schema where
  "problems_schema =
     \<lparr>tname = ''problems'',
      columns =
        [(text_column ''text'')\<lparr>not_null := True\<rparr>,
         (text_column ''answer'')\<lparr>not_null := True\<rparr>,
         text_column ''formulaKeys'',
         text_column ''difficulty'',
         text_column ''subject'',
         text_column ''topic'',
         text_column ''analysis'',
         text_column ''hint'',
         text_column ''custom_user'',
         timestamp_column]\<rparr>"

subsection \<open>Server state, environment and responses\<close>

text \<open>
  The state is the three tables and what the handlers printed on the console. The server
  creates the tables empty when it first starts.
\<close>

datatype log_entry = Log string | LogError string string

record state =
  submitted_content :: table
  formulas :: table
  problems :: table
  console :: "log_entry list"

definition empty_table :: table where
  "empty_table = \<lparr>rows = [], seq = 0\<rparr>"

definition init_state :: state where
  "init_state =
     \<lparr>submitted_content = empty_table, formulas = empty_table, problems = empty_table,
      console = []\<rparr>"

text \<open>
  What a request finds around it: the clock (\<^verbatim>\<open>CURRENT_TIMESTAMP\<close>), the credential of the
  process environment, and whether the driver fails the read or the write of this
  request, with the message it reports.
\<close>

record env =
  now :: string
  GEMINI_API_KEY :: "string option"
  read_fault :: "string option"
  write_fault :: "string option"

text \<open>
  \<^verbatim>\<open>res.json(b)\<close> answers with status 200, \<^verbatim>\<open>res.status(n).json(b)\<close> with status \<open>n\<close>.
\<close>

record response =
  status :: nat
  body :: json

definition failure :: "nat \<Rightarrow> string \<Rightarrow> response" where
  "failure code msg =
     \<lparr>status = code, body = JObj [(''success'', JBool False), (''error'', JStr msg)]\<rparr>"

definition db_failure :: "string \<Rightarrow> dberr \<Rightarrow> response" where
  "db_failure msg e =
     \<lparr>status = 500,
      body = JObj [(''success'', JBool False), (''error'', JStr msg),
                   (''dbError'', JStr (err_message e))]\<rparr>"

definition saved :: "string \<Rightarrow> json \<Rightarrow> response" where
  "saved msg ident =
     \<lparr>status = 200,
      body = JObj [(''success'', JBool True), (''message'', JStr msg), (''id'', ident)]\<rparr>"

subsection \<open>POST /api/call-gemini\<close>

text \<open>
  The call to the text service is a parameter \<open>generateContent\<close>: given the credential,
  the prompt and the generation configuration it yields the generated text, or the message
  of the error thrown on the way (by the client library, the network or
  \<^verbatim>\<open>response.text()\<close>). The insert into \<^verbatim>\<open>submitted_content\<close> happens after the answer is
  fixed; its callback only prints.
\<close>

datatype upstream = Generated string | Failed string

definition generation_config :: "json option \<Rightarrow> json option" where
  "generation_config schema =
     (case schema of
        None \<Rightarrow> None
      | Some sc \<Rightarrow>
          if truthy sc
          then Some (JObj [(''responseMimeType'', JStr ''application/json''),
                           (''responseSchema'', sc)])
          else None)"

definition forward_prompt ::
  "(json option \<Rightarrow> json option \<Rightarrow> json option \<Rightarrow> upstream) \<Rightarrow> env \<Rightarrow>
   json option \<Rightarrow> json option \<Rightarrow> json option \<Rightarrow> state \<Rightarrow> response \<times> state" where
  "forward_prompt generateContent e key prompt schema st =
     (case generateContent key prompt (generation_config schema) of
        Failed msg \<Rightarrow>
          (failure 500 msg,
           st\<lparr>console := console st @ [LogError ''Error in /api/call-gemini:'' msg]\<rparr>)
      | Generated text \<Rightarrow>
          (\<lparr>status = 200, body = JObj [(''success'', JBool True), (''data'', JStr text)]\<rparr>,
           case sql_insert (write_fault e) submitted_content_schema (now e)
                  [(''prompt'', bind_param prompt),
                   (''schema'', bind_param (stringify_or_null schema)),
                   (''ai_response'', bind_param (Some (JStr text)))]
                  (submitted_content st) of
             Inl err \<Rightarrow>
               st\<lparr>console := console st @
                    [LogError ''Error saving AI interaction:'' (err_message err)]\<rparr>
           | Inr (lastID, t) \<Rightarrow>
               st\<lparr>submitted_content := t,
                  console := console st @
                    [Log (''AI interaction saved with ID: '' @ show_int lastID)]\<rparr>))"

text \<open>
  The source file holds the handler twice. The first copy takes the credential from the
  body field \<^verbatim>\<open>apiKey\<close> and falls back to the process environment.
\<close>

definition call_gemini ::
  "(json option \<Rightarrow> json option \<Rightarrow> json option \<Rightarrow> upstream) \<Rightarrow> env \<Rightarrow> json \<Rightarrow> state \<Rightarrow> response \<times> state" where
  "call_gemini generateContent e req st =
     (let prompt = get_field req ''prompt'';
          schema = get_field req ''schema'';
          apiKey = get_field req ''apiKey'';
          key = js_or apiKey (map_option JStr (GEMINI_API_KEY e))
      in if \<not> truthy_opt key
         then (failure 400 ''Gemini API key is missing. Please ensure it's provided.'', st)
         else forward_prompt generateContent e key prompt schema st)"

text \<open>
  The second copy reads the process environment only and words the message differently;
  all other handlers are the same in both copies.
\<close>

definition call_gemini_rev2 ::
  "(json option \<Rightarrow> json option \<Rightarrow> json option \<Rightarrow> upstream) \<Rightarrow> env \<Rightarrow> json \<Rightarrow> state \<Rightarrow> response \<times> state" where
  "call_gemini_rev2 generateContent e req st =
     (let prompt = get_field req ''prompt'';
          schema = get_field req ''schema'';
          key = map_option JStr (GEMINI_API_KEY e)
      in if \<not> truthy_opt key
         then (failure 400
                 ''Gemini API key is missing. Please ensure it's provided in your .env file.'', st)
         else forward_prompt generateContent e key prompt schema st)"

subsection \<open>POST /api/save-formula and GET /api/get-formulas\<close>

text \<open>
  \<open>formula_lookup\<close> is the \<^verbatim>\<open>SELECT id FROM formulas WHERE key = ?\<close>; \<open>formula_write\<close> is
  its callback, which updates when a row was found and inserts otherwise;
  \<open>save_formula\<close> validates and runs the two in sequence.
\<close>

definition formula_lookup :: "env \<Rightarrow> json \<Rightarrow> state \<Rightarrow> dberr + row option" where
  "formula_lookup e req st =
     sql_get (read_fault e) formulas_schema [''id''] ''key''
       (bind_param (get_field req ''key'')) (formulas st)"

definition formula_write :: "env \<Rightarrow> json \<Rightarrow> row option \<Rightarrow> state \<Rightarrow> response \<times> state" where
  "formula_write e req found st =
     (let key = get_field req ''key'';
          stringifiedVariables = stringify_or_null (get_field req ''variables'');
          stringifiedConnections = stringify_or_null (get_field req ''connections'');
          stringifiedExamples = stringify_or_null (get_field req ''examples'');
          fields =
            [(''category'', bind_param (get_field req ''category'')),
             (''subject'', bind_param (get_field req ''subject'')),
             (''topic'', bind_param (get_field req ''topic'')),
             (''sub_topic'', bind_param (get_field req ''sub_topic'')),
             (''formula'', bind_param (get_field req ''formula'')),
             (''description'', bind_param (get_field req ''description'')),
             (''variables'', bind_param stringifiedVariables),
             (''connections'', bind_param stringifiedConnections),
             (''examples'', bind_param stringifiedExamples),
             (''verified_by_ai'', bind_param (get_field req ''verified_by_ai'')),
             (''custom_user'', bind_param (get_field req ''custom_user''))];
          outcome =
            (case found of
               Some r \<Rightarrow>
                 (case sql_update (write_fault e) formulas_schema
                         (fields @ [(''timestamp'', SqlText (now e))])
                         ''key'' (bind_param key) (formulas st) of
                    Inl err \<Rightarrow> Inl err
                  | Inr t \<Rightarrow> Inr (js_of_sql (col r ''id''), t))
             | None \<Rightarrow>
                 (case sql_insert (write_fault e) formulas_schema (now e)
                         ((''key'', bind_param key) # fields) (formulas st) of
                    Inl err \<Rightarrow> Inl err
                  | Inr (lastID, t) \<Rightarrow> Inr (JNum lastID, t)))
      in case outcome of
           Inl insertErr \<Rightarrow>
             (db_failure ''Failed to save formula.'' insertErr,
              st\<lparr>console := console st @
                   [LogError ''Error saving/updating formula:'' (err_message insertErr)]\<rparr>)
         | Inr (ident, t) \<Rightarrow>
             (saved ''Formula saved successfully.'' ident,
              st\<lparr>formulas := t,
                 console := console st @
                   [Log (''Formula '' @ [CHR 0x27] @ template_text key @ [CHR 0x27] @
                         '' saved/updated. ID: '' @ js_toString ident)]\<rparr>))"

definition save_formula :: "env \<Rightarrow> json \<Rightarrow> state \<Rightarrow> response \<times> state" where
  "save_formula e req st =
     (if \<not> truthy_opt (get_field req ''key'') \<or> \<not> truthy_opt (get_field req ''formula'')
      then (failure 400 ''Key and formula are required.'', st)
      else
        (case formula_lookup e req st of
           Inl err \<Rightarrow>
             (db_failure ''Database error.'' err,
              st\<lparr>console := console st @
                   [LogError ''Error checking formula existence:'' (err_message err)]\<rparr>)
         | Inr found \<Rightarrow> formula_write e req found st))"

text \<open>
  Listing parses the composite columns back; a column that is \<^verbatim>\<open>NULL\<close> (or an empty
  text) lists as the empty array. \<^verbatim>\<open>{...row, c: x}\<close> keeps the position of column \<open>c\<close>.
  A text that is not JSON makes \<^verbatim>\<open>JSON.parse\<close> throw inside the callback, and then no
  response is sent: the result is \<open>None\<close>.
\<close>

definition parse_or_empty :: "row \<Rightarrow> string \<Rightarrow> json option" where
  "parse_or_empty r c =
     (case map_option js_of_sql (map_of r c) of
        None \<Rightarrow> Some (JArr [])
      | Some v \<Rightarrow> if truthy v then JSON_parse (js_toString v) else Some (JArr []))"

definition row_object :: "row \<Rightarrow> (string \<times> json) list" where
  "row_object r = map (\<lambda>(c, v). (c, js_of_sql v)) r"

definition formula_view :: "row \<Rightarrow> json option" where
  "formula_view r =
     (case (parse_or_empty r ''variables'', parse_or_empty r ''connections'',
            parse_or_empty r ''examples'') of
        (Some vs, Some cs, Some es) \<Rightarrow>
          Some (JObj (obj_set (obj_set (obj_set (row_object r) ''variables'' vs)
                        ''connections'' cs) ''examples'' es))
      | _ \<Rightarrow> None)"

fun map_all :: "('a \<Rightarrow> 'b option) \<Rightarrow> 'a list \<Rightarrow> 'b list option" where
  "map_all f [] = Some []"
| "map_all f (x # xs) =
     (case f x of
        None \<Rightarrow> None
      | Some y \<Rightarrow> (case map_all f xs of None \<Rightarrow> None | Some ys \<Rightarrow> Some (y # ys)))"

definition get_formulas :: "env \<Rightarrow> state \<Rightarrow> response option \<times> state" where
  "get_formulas e st =
     (case sql_all (read_fault e) ''key'' ASC (formulas st) of
        Inl err \<Rightarrow>
          (Some (db_failure ''Failed to retrieve formulas.'' err),
           st\<lparr>console := console st @
                [LogError ''Error retrieving formulas:'' (err_message err)]\<rparr>)
      | Inr rs \<Rightarrow>
          (case map_all formula_view rs of
             None \<Rightarrow> (None, st)
           | Some views \<Rightarrow>
               (Some \<lparr>status = 200,
                      body = JObj [(''success'', JBool True), (''formulas'', JArr views)]\<rparr>,
                st)))"

subsection \<open>POST /api/save-problem and GET /api/get-problems\<close>

definition save_problem :: "env \<Rightarrow> json \<Rightarrow> state \<Rightarrow> response \<times> state" where
  "save_problem e req st =
     (if \<not> truthy_opt (get_field req ''text'') \<or> \<not> truthy_opt (get_field req ''answer'')
      then (failure 400 ''Problem text and answer are required.'', st)
      else
        (let stringifiedFormulaKeys = stringify_or_null (get_field req ''formulaKeys'');
             outcome =
               (case bind_arguments
                       [get_field req ''text'', get_field req ''answer'', stringifiedFormulaKeys,
                        get_field req ''difficulty'', get_field req ''subject'',
                        get_field req ''topic'', get_field req ''analysis'',
                        get_field req ''hint'', get_field req ''custom_user''] of
                  Inl err \<Rightarrow> Inl err
                | Inr bound \<Rightarrow>
                    sql_insert (write_fault e) problems_schema (now e)
                      (zip [''text'', ''answer'', ''formulaKeys'', ''difficulty'', ''subject'',
                            ''topic'', ''analysis'', ''hint'', ''custom_user''] bound)
                      (problems st))
         in case outcome of
              Inl err \<Rightarrow>
                (db_failure ''Failed to save problem.'' err,
                 st\<lparr>console := console st @
                      [LogError ''Error saving problem:'' (err_message err)]\<rparr>)
            | Inr (lastID, t) \<Rightarrow>
                (saved ''Problem saved successfully.'' (JNum lastID),
                 st\<lparr>problems := t,
                    console := console st @
                      [Log (''Problem saved with ID: '' @ show_int lastID)]\<rparr>)))"

definition problem_view :: "row \<Rightarrow> json option" where
  "problem_view r =
     (case parse_or_empty r ''formulaKeys'' of
        Some ks \<Rightarrow> Some (JObj (obj_set (row_object r) ''formulaKeys'' ks))
      | None \<Rightarrow> None)"

definition get_problems :: "env \<Rightarrow> state \<Rightarrow> response option \<times> state" where
  "get_problems e st =
     (case sql_all (read_fault e) ''timestamp'' DESC (problems st) of
        Inl err \<Rightarrow>
          (Some (db_failure ''Failed to retrieve problems.'' err),
           st\<lparr>console := console st @
                [LogError ''Error retrieving problems:'' (err_message err)]\<rparr>)
      | Inr rs \<Rightarrow>
          (case map_all problem_view rs of
             None \<Rightarrow> (None, st)
           | Some views \<Rightarrow>
               (Some \<lparr>status = 200,
                      body = JObj [(''success'', JBool True), (''problems'', JArr views)]\<rparr>,
                st)))"

section \<open>Specification vocabulary\<close>

text \<open>
  Tables that hold rows of their schema, with the \<^verbatim>\<open>UNIQUE\<close> constraint on
  \<^verbatim>\<open>formulas.key\<close> in force. Both are facts of the engine rather than of the handlers;
  they hold of the empty tables and the handlers keep them (lemma \<open>reachable_ok\<close>
  below).
\<close>

definition shaped :: "schema \<Rightarrow> table \<Rightarrow> bool" where
  "shaped sch t = list_all (\<lambda>r. map fst r = ''id'' # map cname (columns sch)) (rows t)"

definition unique_keys :: "table \<Rightarrow> bool" where
  "unique_keys t = distinct (filter (\<lambda>v. v \<noteq> SqlNull) (map (\<lambda>r. col r ''key'') (rows t)))"

text \<open>
  What a request field becomes in a \<open>TEXT\<close> column, and the row a save-formula request
  describes: every column but the id comes from the request and the clock.
\<close>

definition stored_text :: "json option \<Rightarrow> sqlval" where
  "stored_text x = apply_affinity TEXT (bind_param x)"

definition formula_row :: "sqlval \<Rightarrow> string \<Rightarrow> json \<Rightarrow> row" where
  "formula_row idv ts req =
     [(''id'', idv),
      (''key'', stored_text (get_field req ''key'')),
      (''category'', stored_text (get_field req ''category'')),
      (''subject'', stored_text (get_field req ''subject'')),
      (''topic'', stored_text (get_field req ''topic'')),
      (''sub_topic'', stored_text (get_field req ''sub_topic'')),
      (''formula'', stored_text (get_field req ''formula'')),
      (''description'', stored_text (get_field req ''description'')),
      (''variables'', stored_text (stringify_or_null (get_field req ''variables''))),
      (''connections'', stored_text (stringify_or_null (get_field req ''connections''))),
      (''examples'', stored_text (stringify_or_null (get_field req ''examples''))),
      (''verified_by_ai'', apply_affinity NUMERIC (bind_param (get_field req ''verified_by_ai''))),
      (''custom_user'', stored_text (get_field req ''custom_user'')),
      (''timestamp'', apply_affinity NUMERIC (SqlText ts))]"

definition formula_sets :: "string \<Rightarrow> json \<Rightarrow> (string \<times> sqlval) list" where
  "formula_sets ts req =
     [(''category'', bind_param (get_field req ''category'')),
      (''subject'', bind_param (get_field req ''subject'')),
      (''topic'', bind_param (get_field req ''topic'')),
      (''sub_topic'', bind_param (get_field req ''sub_topic'')),
      (''formula'', bind_param (get_field req ''formula'')),
      (''description'', bind_param (get_field req ''description'')),
      (''variables'', bind_param (stringify_or_null (get_field req ''variables''))),
      (''connections'', bind_param (stringify_or_null (get_field req ''connections''))),
      (''examples'', bind_param (stringify_or_null (get_field req ''examples''))),
      (''verified_by_ai'', bind_param (get_field req ''verified_by_ai'')),
      (''custom_user'', bind_param (get_field req ''custom_user'')),
      (''timestamp'', SqlText ts)]"

definition has_key :: "json \<Rightarrow> row \<Rightarrow> bool" where
  "has_key req r = (col r ''key'' = stored_text (get_field req ''key''))"

definition formula_ident :: "json \<Rightarrow> table \<Rightarrow> sqlval" where
  "formula_ident req t =
     (case find (has_key req) (rows t) of
        Some r \<Rightarrow> col r ''id''
      | None \<Rightarrow> SqlInt (next_rowid t))"

definition formulas_after :: "string \<Rightarrow> json \<Rightarrow> table \<Rightarrow> table" where
  "formulas_after ts req t =
     (case find (has_key req) (rows t) of
        Some r0 \<Rightarrow>
          t\<lparr>rows := map (\<lambda>r. if has_key req r then formula_row (col r ''id'') ts req else r) (rows t)\<rparr>
      | None \<Rightarrow>
          t\<lparr>rows := rows t @ [formula_row (SqlInt (next_rowid t)) ts req], seq := next_rowid t\<rparr>)"

definition problem_row :: "sqlval \<Rightarrow> string \<Rightarrow> json \<Rightarrow> row" where
  "problem_row idv ts req =
     [(''id'', idv),
      (''text'', stored_text (get_field req ''text'')),
      (''answer'', stored_text (get_field req ''answer'')),
      (''formulaKeys'', stored_text (stringify_or_null (get_field req ''formulaKeys''))),
      (''difficulty'', stored_text (get_field req ''difficulty'')),
      (''subject'', stored_text (get_field req ''subject'')),
      (''topic'', stored_text (get_field req ''topic'')),
      (''analysis'', stored_text (get_field req ''analysis'')),
      (''hint'', stored_text (get_field req ''hint'')),
      (''custom_user'', stored_text (get_field req ''custom_user'')),
      (''timestamp'', apply_affinity NUMERIC (SqlText ts))]"

definition problems_after :: "string \<Rightarrow> json \<Rightarrow> table \<Rightarrow> table" where
  "problems_after ts req t =
     t\<lparr>rows := rows t @ [problem_row (SqlInt (next_rowid t)) ts req], seq := next_rowid t\<rparr>"

text \<open>
  A sequence of save-problem calls, each with its own environment.
\<close>

definition run_saves :: "(env \<times> json) list \<Rightarrow> state \<Rightarrow> state" where
  "run_saves calls st = foldl (\<lambda>s (e, req). snd (save_problem e req s)) st calls"

text \<open>
  A table can be listed when no composite column holds a text that fails to parse.
  \<open>state_ok\<close> collects the assumptions the claims make about the stored tables.
\<close>

definition listable :: "(row \<Rightarrow> json option) \<Rightarrow> table \<Rightarrow> bool" where
  "listable view t = list_all (\<lambda>r. view r \<noteq> None) (rows t)"

definition state_ok :: "state \<Rightarrow> bool" where
  "state_ok st =
     (shaped formulas_schema (formulas st) \<and> unique_keys (formulas st) \<and>
      listable formula_view (formulas st) \<and> listable problem_view (problems st))"

text \<open>
  The states the server can be in, as long as every body is a JSON value and the
  \<^verbatim>\<open>text\<close> of a problem is bound by position.
\<close>

inductive reachable :: "state \<Rightarrow> bool" where
  start: "reachable init_state"
| formula_saved: "reachable st \<Longrightarrow> wf_json req \<Longrightarrow> reachable (snd (save_formula e req st))"
| problem_saved:
    "reachable st \<Longrightarrow> wf_json req \<Longrightarrow> positional (get_field req ''text'') \<Longrightarrow>
     reachable (snd (save_problem e req st))"
| prompt_forwarded: "reachable st \<Longrightarrow> reachable (snd (call_gemini generateContent e req st))"
| formulas_listed: "reachable st \<Longrightarrow> reachable (snd (get_formulas e st))"
| problems_listed: "reachable st \<Longrightarrow> reachable (snd (get_problems e st))"

text \<open>
  Auxiliary notions of the parser proof: the characters that may follow a number, and
  those that may start a JSON value.
\<close>

definition delim :: "string \<Rightarrow> bool" where
  "delim rest = (rest = [] \<or> hd rest = CHR '','' \<or> hd rest = CHR '']'' \<or> hd rest = CHR ''}'')"

definition value_start :: "char \<Rightarrow> bool" where
  "value_start c = (\<not> is_ws c \<and> c \<noteq> CHR '']'' \<and> c \<noteq> CHR ''}'')"

subsection \<open>Sample data\<close>

definition sample_env :: env where
  "sample_env = \<lparr>now = ''2025-06-01 10:00:00'', GEMINI_API_KEY = None,
                  read_fault = None, write_fault = None\<rparr>"

definition later_env :: env where
  "later_env = \<lparr>now = ''2025-06-02 08:30:00'', GEMINI_API_KEY = None,
                 read_fault = None, write_fault = None\<rparr>"

definition keyed_env :: env where
  "keyed_env = \<lparr>now = ''2025-06-01 10:00:00'', GEMINI_API_KEY = Some ''server-key'',
                 read_fault = None, write_fault = Some ''SQLITE_IOERR: disk I/O error''\<rparr>"

definition speed_formula :: json where
  "speed_formula =
     JObj [(''key'', JStr ''speed''), (''formula'', JStr ''v = d / t''),
           (''category'', JStr ''physics''),
           (''variables'', JArr [JObj [(''name'', JStr ''x''), (''meaning'', JStr ''speed'')] ]),
           (''verified_by_ai'', JBool True)]"

definition speed_formula_bare :: json where
  "speed_formula_bare = JObj [(''key'', JStr ''speed''), (''formula'', JStr ''v = s / t'')]"

definition sum_prompt :: json where
  "sum_prompt = JObj [(''prompt'', JStr ''2+2'')]"

definition sum_prompt_with_key :: json where
  "sum_prompt_with_key = JObj [(''prompt'', JStr ''2+2''), (''apiKey'', JStr ''caller-key'')]"

definition answer_four :: "json option \<Rightarrow> json option \<Rightarrow> json option \<Rightarrow> upstream" where
  "answer_four key prompt config = Generated ''4''"

definition caller_key_only :: "json option \<Rightarrow> json option \<Rightarrow> json option \<Rightarrow> upstream" where
  "caller_key_only key prompt config =
     (if key = Some (JStr ''caller-key'') then Generated ''4''
      else Failed ''API key not valid'')"

definition sum_problem :: json where
  "sum_problem = JObj [(''text'', JStr ''2+2?''), (''answer'', JStr ''4'')]"

section \<open>Parsing undoes printing\<close>

subsection \<open>Numbers\<close>

lemma show_nat_small: "n < 10 \<Longrightarrow> show_nat n = [char_of (48 + n)]"
  by (subst show_nat.simps) simp

lemma show_nat_large:
  "\<not> n < 10 \<Longrightarrow> show_nat n = show_nat (n div 10) @ [char_of (48 + n mod 10)]"
  by (subst show_nat.simps) simp

lemma show_nat_ne: "show_nat n \<noteq> []"
  by (cases "n < 10") (simp_all add: show_nat_small show_nat_large)

lemma digit_char: "k < 10 \<Longrightarrow> is_digit (char_of (48 + k)) \<and> digit_val (char_of (48 + k)) = k"
proof -
  assume "k < 10"
  then have "(48 + k) mod 256 = 48 + k" by simp
  then show ?thesis using \<open>k < 10\<close> by (simp add: is_digit_def digit_val_def)
qed

lemma show_nat_digits: "c \<in> set (show_nat n) \<Longrightarrow> is_digit c"
proof (induction n arbitrary: c rule: show_nat.induct)
  case (1 n)
  show ?case
  proof (cases "n < 10")
    case True
    with "1.prems" show ?thesis
      by (simp add: show_nat_small digit_char)
  next
    case False
    from "1.prems" have "c \<in> set (show_nat (n div 10)) \<or> c = char_of (48 + n mod 10)"
      by (auto simp: show_nat_large [OF False])
    then show ?thesis
    proof
      assume "c \<in> set (show_nat (n div 10))"
      with "1.IH" False show ?thesis by simp
    next
      assume c: "c = char_of (48 + n mod 10)"
      have "n mod 10 < 10" by simp
      from digit_char [OF this] c show ?thesis by simp
    qed
  qed
qed

lemma read_nat_snoc: "read_nat (ds @ [d]) = 10 * read_nat ds + digit_val d"
  by (simp add: read_nat_def)

lemma read_nat_single: "read_nat [d] = digit_val d"
  by (simp add: read_nat_def)

lemma read_nat_show: "read_nat (show_nat n) = n"
proof (induction n rule: show_nat.induct)
  case (1 n)
  show ?case
  proof (cases "n < 10")
    case True
    then show ?thesis
      by (simp add: show_nat_small read_nat_single digit_char)
  next
    case False
    have m: "n mod 10 < 10" by simp
    have "read_nat (show_nat n) = 10 * read_nat (show_nat (n div 10)) + digit_val (char_of (48 + n mod 10))"
      by (simp add: show_nat_large [OF False] read_nat_snoc)
    also have "\<dots> = 10 * (n div 10) + n mod 10"
      using "1.IH" False digit_char [OF m] by simp
    finally show ?thesis by simp
  qed
qed

lemma show_nat_hd_zero: "hd (show_nat n) = CHR ''0'' \<Longrightarrow> n = 0"
proof (induction n rule: show_nat.induct)
  case (1 n)
  show ?case
  proof (cases "n < 10")
    case True
    from "1.prems" have "char_of (48 + n) = CHR ''0''"
      by (simp add: show_nat_small [OF True])
    then have "digit_val (char_of (48 + n)) = digit_val (CHR ''0'')" by simp
    then show ?thesis using digit_char [OF True] by (simp add: digit_val_def)
  next
    case False
    then have pos: "0 < n div 10" by simp
    have "hd (show_nat n) = hd (show_nat (n div 10))"
      using show_nat_ne [of "n div 10"] by (simp add: show_nat_large [OF False])
    with "1.prems" have "hd (show_nat (n div 10)) = CHR ''0''" by simp
    with "1.IH" False have "n div 10 = 0" by simp
    with pos show ?thesis by simp
  qed
qed

lemma delim_not_digit: "delim rest \<Longrightarrow> rest \<noteq> [] \<Longrightarrow> \<not> is_digit (hd rest)"
  by (auto simp: delim_def is_digit_def)

lemma delim_not_frac: "delim rest \<Longrightarrow> \<not> (rest \<noteq> [] \<and> hd rest \<in> {CHR ''.'', CHR ''e'', CHR ''E''})"
  by (auto simp: delim_def)

lemma takeWhile_digits: "delim rest \<Longrightarrow> takeWhile is_digit (show_nat n @ rest) = show_nat n"
  by (cases rest) (auto simp: takeWhile_append2 show_nat_digits dest: delim_not_digit)

lemma dropWhile_digits: "delim rest \<Longrightarrow> dropWhile is_digit (show_nat n @ rest) = rest"
  by (cases rest) (auto simp: dropWhile_append2 show_nat_digits dest: delim_not_digit)

lemma parse_digits_show_nat:
  assumes "delim rest"
  shows "parse_digits (show_nat n @ rest) = Some (n, rest)"
proof -
  obtain d r where dr: "show_nat n = d # r"
    using show_nat_ne [of n] by (cases "show_nat n") auto
  have dig: "is_digit d"
    using show_nat_digits [of d n] dr by simp
  note nd = delim_not_frac [OF assms]
  show ?thesis
  proof (cases "d = CHR ''0''")
    case True
    with dr have "hd (show_nat n) = CHR ''0''" by simp
    then have n0: "n = 0" by (rule show_nat_hd_zero)
    have "show_nat n = [char_of (48 + n)]" using n0 by (simp add: show_nat_small)
    with dr True have z: "show_nat n = [CHR ''0'']" by simp
    have "parse_digits ([CHR ''0''] @ rest) = Some (0, rest)"
      using nd by (simp add: parse_digits_def is_digit_def read_nat_single digit_val_def)
    then have "parse_digits (show_nat n @ rest) = Some (0, rest)" by (simp only: z)
    then show ?thesis by (simp only: n0 [symmetric])
  next
    case False
    have tw: "takeWhile is_digit (d # r @ rest) = show_nat n"
      using takeWhile_digits [OF assms, of n] dr by simp
    have dw: "dropWhile is_digit (d # r @ rest) = rest"
      using dropWhile_digits [OF assms, of n] dr by simp
    have "parse_digits (d # r @ rest) = Some (n, rest)"
      unfolding parse_digits_def list.case tw dw Let_def
      using False dig nd by (simp add: read_nat_show)
    then show ?thesis by (simp add: dr)
  qed
qed

lemma show_nat_hd_not_minus: "hd (show_nat n) \<noteq> CHR ''-''"
proof -
  have "hd (show_nat n) \<in> set (show_nat n)" using show_nat_ne by simp
  then have "is_digit (hd (show_nat n))" by (rule show_nat_digits)
  then show ?thesis by (auto simp: is_digit_def)
qed

lemma parse_number_show_int:
  assumes "delim rest"
  shows "parse_number (show_int i @ rest) = Some (i, rest)"
proof (cases "i < 0")
  case True
  then have "show_int i @ rest = CHR ''-'' # show_nat (nat (- i)) @ rest"
    by (simp add: show_int_def)
  moreover have "parse_number (CHR ''-'' # show_nat (nat (- i)) @ rest) = Some (- int (nat (- i)), rest)"
    by (simp add: parse_number_def parse_digits_show_nat [OF assms])
  ultimately show ?thesis using True by simp
next
  case False
  obtain d r where dr: "show_nat (nat i) = d # r"
    using show_nat_ne [of "nat i"] by (cases "show_nat (nat i)") auto
  have nm: "d \<noteq> CHR ''-''" using show_nat_hd_not_minus [of "nat i"] dr by simp
  have "parse_number (d # r @ rest) = Some (int (nat i), rest)"
    using parse_digits_show_nat [OF assms, of "nat i"] nm by (simp add: parse_number_def dr)
  with False dr show ?thesis by (simp add: show_int_def)
qed

subsection \<open>Strings\<close>

lemma hex_val_hex_digit: "n < 16 \<Longrightarrow> hex_val (hex_digit n) = Some n"
proof -
  assume n: "n < 16"
  then have a: "(48 + n) mod 256 = 48 + n" and b: "(87 + n) mod 256 = 87 + n" by simp_all
  show ?thesis using n by (auto simp: hex_val_def hex_digit_def a b Let_def)
qed

lemma hex_val_zero: "hex_val (CHR ''0'') = Some 0"
  by (simp add: hex_val_def)

lemma hex4_control:
  assumes "(of_char c :: nat) < 32"
  shows "hex4 (CHR ''0'') (CHR ''0'') (hex_digit (of_char c div 16)) (hex_digit (of_char c mod 16)) = Some c"
proof -
  let ?k = "of_char c :: nat"
  have d: "?k div 16 < 16" using assms by simp
  have m: "?k mod 16 < 16" by simp
  have v: "((0 * 16 + 0) * 16 + ?k div 16) * 16 + ?k mod 16 = ?k" by simp
  have lt: "?k < 256" using assms by simp
  show ?thesis
    unfolding hex4_def hex_val_zero hex_val_hex_digit [OF d] hex_val_hex_digit [OF m]
    using lt by (simp add: v del: mult_0 add_0)
qed

lemma parse_escape_char:
  "parse_string_body (escape_char c @ r) = consed c (parse_string_body r)"
proof -
  consider (dq) "c = dquote" | (bs) "c = bslash" | (b) "c = CHR 0x08" | (f) "c = CHR 0x0C"
    | (n) "c = CHR 0x0A" | (r) "c = CHR 0x0D" | (t) "c = CHR 0x09"
    | (ctl) "c \<noteq> dquote" "c \<noteq> bslash" "c \<noteq> CHR 0x08" "c \<noteq> CHR 0x0C" "c \<noteq> CHR 0x0A"
        "c \<noteq> CHR 0x0D" "c \<noteq> CHR 0x09" "(of_char c :: nat) < 32"
    | (plain) "c \<noteq> dquote" "c \<noteq> bslash" "c \<noteq> CHR 0x08" "c \<noteq> CHR 0x0C" "c \<noteq> CHR 0x0A"
        "c \<noteq> CHR 0x0D" "c \<noteq> CHR 0x09" "\<not> (of_char c :: nat) < 32"
    by blast
  then show ?thesis
  proof cases
    case dq then show ?thesis by (simp add: escape_char_def unescape_def dquote_def bslash_def)
  next
    case bs then show ?thesis by (simp add: escape_char_def unescape_def dquote_def bslash_def)
  next
    case b then show ?thesis by (simp add: escape_char_def unescape_def dquote_def bslash_def)
  next
    case f then show ?thesis by (simp add: escape_char_def unescape_def dquote_def bslash_def)
  next
    case n then show ?thesis by (simp add: escape_char_def unescape_def dquote_def bslash_def)
  next
    case r then show ?thesis by (simp add: escape_char_def unescape_def dquote_def bslash_def)
  next
    case t then show ?thesis by (simp add: escape_char_def unescape_def dquote_def bslash_def)
  next
    case ctl
    then have "escape_char c = [bslash, CHR ''u'', CHR ''0'', CHR ''0'',
              hex_digit (of_char c div 16), hex_digit (of_char c mod 16)]"
      by (simp add: escape_char_def)
    then show ?thesis
      by (simp add: hex4_control [OF ctl(8)] dquote_def bslash_def)
  next
    case plain
    then show ?thesis by (simp add: escape_char_def)
  qed
qed

lemma parse_string_body_escaped:
  "parse_string_body (concat (map escape_char s) @ dquote # rest) = Some (s, rest)"
  by (induction s) (simp_all add: parse_escape_char consed_def)

subsection \<open>Objects\<close>

lemma obj_set_fresh: "k \<notin> fst ` set ob \<Longrightarrow> obj_set ob k v = ob @ [(k, v)]"
  by (induction ob) auto

lemma obj_fold_distinct:
  "distinct (map fst (ob @ ms)) \<Longrightarrow> foldl (\<lambda>ob (k, v). obj_set ob k v) ob ms = ob @ ms"
proof (induction ms arbitrary: ob)
  case Nil
  then show ?case by simp
next
  case (Cons m ms)
  obtain k v where m: "m = (k, v)" by (cases m)
  from Cons.prems have fresh: "k \<notin> fst ` set ob" by (auto simp: m)
  from Cons.prems have "distinct (map fst ((ob @ [(k, v)]) @ ms))" by (simp add: m)
  from Cons.IH [OF this] show ?case by (simp add: m obj_set_fresh [OF fresh])
qed

lemma obj_of_members_distinct: "distinct (map fst ms) \<Longrightarrow> obj_of_members ms = ms"
  using obj_fold_distinct [of "[]" ms] by (simp add: obj_of_members_def)

subsection \<open>One step of the parser\<close>

lemma skip_ws_start: "\<not> is_ws c \<Longrightarrow> skip_ws (c # r) = c # r"
  by (simp add: skip_ws_def)

lemma show_int_start: "\<exists>c r. show_int i = c # r \<and> (c = CHR ''-'' \<or> is_digit c)"
proof (cases "i < 0")
  case True
  then show ?thesis by (simp add: show_int_def)
next
  case False
  obtain d r where dr: "show_nat (nat i) = d # r"
    using show_nat_ne [of "nat i"] by (cases "show_nat (nat i)") auto
  have "is_digit d" using show_nat_digits [of d "nat i"] dr by simp
  with False dr show ?thesis by (simp add: show_int_def)
qed

lemma num_start_props:
  assumes "c = CHR ''-'' \<or> is_digit c"
  shows "\<not> is_ws c" "c \<noteq> CHR '']''" "c \<noteq> CHR ''}''" "c \<noteq> CHR ''[''" "c \<noteq> CHR ''{''"
    "c \<noteq> dquote" "c \<noteq> CHR ''n''" "c \<noteq> CHR ''t''" "c \<noteq> CHR ''f''"
  using assms by (auto simp: is_digit_def is_ws_def dquote_def)

lemma stringify_start: "\<exists>c r. stringify v = c # r \<and> value_start c"
proof (cases v)
  case (JNum i)
  obtain c r where "show_int i = c # r" "c = CHR ''-'' \<or> is_digit c"
    using show_int_start by blast
  with JNum show ?thesis using num_start_props [of c] by (simp add: value_start_def)
qed (simp_all add: value_start_def is_ws_def quote_json_def dquote_def)

lemma pv_null: "parse_value (Suc m) (''null'' @ rest) = Some (JNull, rest)"
  by (simp add: skip_ws_def is_ws_def literal_def strip_prefix_def dquote_def)

lemma pv_true: "parse_value (Suc m) (''true'' @ rest) = Some (JBool True, rest)"
  by (simp add: skip_ws_def is_ws_def literal_def strip_prefix_def dquote_def)

lemma pv_false: "parse_value (Suc m) (''false'' @ rest) = Some (JBool False, rest)"
  by (simp add: skip_ws_def is_ws_def literal_def strip_prefix_def dquote_def)

lemma pv_str:
  "parse_value (Suc m) (dquote # r) =
     (case parse_string_body r of None \<Rightarrow> None | Some (str, r1) \<Rightarrow> Some (JStr str, r1))"
  by (simp add: skip_ws_def is_ws_def dquote_def)

lemma pv_num:
  assumes "c = CHR ''-'' \<or> is_digit c"
  shows "parse_value (Suc m) (c # r) =
     (case parse_number (c # r) of None \<Rightarrow> None | Some (i, r1) \<Rightarrow> Some (JNum i, r1))"
  using num_start_props [OF assms] by (simp add: skip_ws_start)

lemma pv_arr_empty: "parse_value (Suc m) (CHR ''['' # CHR '']'' # rest) = Some (JArr [], rest)"
  by (simp add: skip_ws_def is_ws_def)

lemma pv_obj_empty: "parse_value (Suc m) (CHR ''{'' # CHR ''}'' # rest) = Some (JObj [], rest)"
  by (simp add: skip_ws_def is_ws_def)

lemma pv_arr:
  assumes "value_start d"
  shows "parse_value (Suc m) (CHR ''['' # d # r) =
     (case parse_elems m (d # r) of None \<Rightarrow> None | Some (vs, r2) \<Rightarrow> Some (JArr vs, r2))"
  using assms by (simp add: skip_ws_def is_ws_def value_start_def)

lemma pv_obj:
  assumes "value_start d"
  shows "parse_value (Suc m) (CHR ''{'' # d # r) =
     (case parse_members m (d # r) of None \<Rightarrow> None
      | Some (ms, r2) \<Rightarrow> Some (JObj (obj_of_members ms), r2))"
  using assms by (simp add: skip_ws_def is_ws_def value_start_def)

lemma pe_last:
  "parse_value m s = Some (v, CHR '']'' # rest) \<Longrightarrow> parse_elems (Suc m) s = Some ([v], rest)"
  by (simp add: skip_ws_def is_ws_def)

lemma pe_more:
  "parse_value m s = Some (v, CHR '','' # r) \<Longrightarrow>
   parse_elems (Suc m) s = consed v (parse_elems m r)"
  by (simp add: skip_ws_def is_ws_def)

lemma pm_last:
  assumes "parse_value m r2 = Some (v, CHR ''}'' # rest)"
  shows "parse_members (Suc m) (quote_json k @ CHR '':'' # r2) = Some ([(k, v)], rest)"
proof -
  have "quote_json k @ CHR '':'' # r2 = dquote # concat (map escape_char k) @ dquote # CHR '':'' # r2"
    by (simp add: quote_json_def)
  moreover have "\<not> is_ws dquote" by (simp add: is_ws_def dquote_def)
  ultimately show ?thesis using assms
    by (simp add: skip_ws_start parse_string_body_escaped is_ws_def)
qed

lemma pm_more:
  assumes "parse_value m r2 = Some (v, CHR '','' # r)"
  shows "parse_members (Suc m) (quote_json k @ CHR '':'' # r2) = consed (k, v) (parse_members m r)"
proof -
  have "quote_json k @ CHR '':'' # r2 = dquote # concat (map escape_char k) @ dquote # CHR '':'' # r2"
    by (simp add: quote_json_def)
  moreover have "\<not> is_ws dquote" by (simp add: is_ws_def dquote_def)
  ultimately show ?thesis using assms
    by (simp add: skip_ws_start parse_string_body_escaped is_ws_def)
qed

declare parse_value.simps [simp del]

lemma delim_simps: "delim (CHR '','' # r)" "delim (CHR '']'' # r)" "delim (CHR ''}'' # r)" "delim []"
  by (simp_all add: delim_def)

lemma stringify_ne: "stringify v \<noteq> []"
  using stringify_start [of v] by auto

lemma elems_start: "vs \<noteq> [] \<Longrightarrow> \<exists>c r. stringify_elems vs = c # r \<and> value_start c"
proof (cases vs)
  case Nil
  assume "vs \<noteq> []" with Nil show ?thesis by simp
next
  case (Cons v ws)
  obtain c r where "stringify v = c # r" "value_start c" using stringify_start by blast
  with Cons show ?thesis by (cases ws) simp_all
qed

lemma members_start: "ms \<noteq> [] \<Longrightarrow> \<exists>r. stringify_members ms = dquote # r"
proof (cases ms)
  case Nil
  assume "ms \<noteq> []" with Nil show ?thesis by simp
next
  case (Cons m ws)
  obtain k v where "m = (k, v)" by (cases m)
  with Cons show ?thesis by (cases ws) (simp_all add: quote_json_def)
qed

subsection \<open>The round trip\<close>

text \<open>
  By induction along the printer: a counter at least as large as the printed text lets
  the parser read the text back and stop exactly where it ends.
\<close>

lemma roundtrip_mutual:
  "wf_json v \<longrightarrow> (\<forall>n rest. length (stringify v) \<le> n \<longrightarrow> delim rest \<longrightarrow>
      parse_value n (stringify v @ rest) = Some (v, rest))"
  "vs \<noteq> [] \<longrightarrow> wf_elems vs \<longrightarrow> (\<forall>n rest. length (stringify_elems vs) < n \<longrightarrow>
      parse_elems n (stringify_elems vs @ CHR '']'' # rest) = Some (vs, rest))"
  "ms \<noteq> [] \<longrightarrow> wf_members ms \<longrightarrow> (\<forall>n rest. length (stringify_members ms) < n \<longrightarrow>
      parse_members n (stringify_members ms @ CHR ''}'' # rest) = Some (ms, rest))"
proof (induction v and vs and ms rule: stringify_stringify_elems_stringify_members.induct)
  case 1
  show ?case
  proof (intro impI allI)
    fix n rest assume "length (stringify JNull) \<le> n"
    then obtain m where "n = Suc m" by (cases n) auto
    then show "parse_value n (stringify JNull @ rest) = Some (JNull, rest)"
      using pv_null [of m rest] by simp
  qed
next
  case (2 b)
  show ?case
  proof (intro impI allI)
    fix n rest assume "length (stringify (JBool b)) \<le> n"
    then obtain m where "n = Suc m" by (cases n) (auto split: if_splits)
    then show "parse_value n (stringify (JBool b) @ rest) = Some (JBool b, rest)"
      using pv_true [of m rest] pv_false [of m rest] by simp
  qed
next
  case (3 i)
  show ?case
  proof (intro impI allI)
    fix n rest assume len: "length (stringify (JNum i)) \<le> n" and d: "delim rest"
    obtain c r where cr: "show_int i = c # r" "c = CHR ''-'' \<or> is_digit c"
      using show_int_start by blast
    from len cr obtain m where n: "n = Suc m" by (cases n) auto
    have "parse_value (Suc m) (c # r @ rest) = Some (JNum i, rest)"
      using pv_num [OF cr(2), of m "r @ rest"] parse_number_show_int [OF d, of i] cr(1) by simp
    then show "parse_value n (stringify (JNum i) @ rest) = Some (JNum i, rest)"
      by (simp add: n cr(1))
  qed
next
  case (4 s)
  show ?case
  proof (intro impI allI)
    fix n rest assume len: "length (stringify (JStr s)) \<le> n"
    then obtain m where n: "n = Suc m" by (cases n) (auto simp: quote_json_def)
    show "parse_value n (stringify (JStr s) @ rest) = Some (JStr s, rest)"
      by (simp add: n quote_json_def pv_str parse_string_body_escaped del: parse_value.simps)
  qed
next
  case (5 vs)
  show ?case
  proof (intro impI allI)
    fix n rest
    assume wf: "wf_json (JArr vs)" and len: "length (stringify (JArr vs)) \<le> n"
    from len obtain m where n: "n = Suc m" by (cases n) auto
    show "parse_value n (stringify (JArr vs) @ rest) = Some (JArr vs, rest)"
    proof (cases "vs = []")
      case True
      then show ?thesis by (simp add: n pv_arr_empty)
    next
      case False
      obtain c r where cr: "stringify_elems vs = c # r" "value_start c"
        using elems_start [OF False] by blast
      from len n have "length (stringify_elems vs) < m" by simp
      with 5 False wf
      have pe: "parse_elems m (stringify_elems vs @ CHR '']'' # rest) = Some (vs, rest)"
        by simp
      have "parse_value (Suc m) (CHR ''['' # c # r @ CHR '']'' # rest) = Some (JArr vs, rest)"
        using pe cr by (simp add: pv_arr [OF cr(2)])
      then show ?thesis by (simp add: n cr(1))
    qed
  qed
next
  case (6 ms)
  show ?case
  proof (intro impI allI)
    fix n rest
    assume wf: "wf_json (JObj ms)" and len: "length (stringify (JObj ms)) \<le> n"
    from len obtain m where n: "n = Suc m" by (cases n) auto
    show "parse_value n (stringify (JObj ms) @ rest) = Some (JObj ms, rest)"
    proof (cases "ms = []")
      case True
      then show ?thesis by (simp add: n pv_obj_empty)
    next
      case False
      obtain r where cr: "stringify_members ms = dquote # r"
        using members_start [OF False] by blast
      have vs: "value_start dquote" by (simp add: value_start_def is_ws_def dquote_def)
      from len n have "length (stringify_members ms) < m" by simp
      with 6 False wf
      have pe: "parse_members m (stringify_members ms @ CHR ''}'' # rest) = Some (ms, rest)"
        by simp
      from wf have "obj_of_members ms = ms" by (simp add: obj_of_members_distinct)
      then have "parse_value (Suc m) (CHR ''{'' # dquote # r @ CHR ''}'' # rest) = Some (JObj ms, rest)"
        using pe cr by (simp add: pv_obj [OF vs])
      then show ?thesis by (simp add: n cr)
    qed
  qed
next
  case 7
  show ?case by simp
next
  case (8 v)
  show ?case
  proof (intro impI allI)
    fix n rest
    assume wf: "wf_elems [v]" and len: "length (stringify_elems [v]) < n"
    from len obtain m where n: "n = Suc m" by (cases n) auto
    from len n have "length (stringify v) \<le> m" by simp
    with 8 wf have "parse_value m (stringify v @ CHR '']'' # rest) = Some (v, CHR '']'' # rest)"
      by (simp add: delim_simps)
    from pe_last [OF this] show "parse_elems n (stringify_elems [v] @ CHR '']'' # rest) = Some ([v], rest)"
      by (simp add: n)
  qed
next
  case (9 v w vs)
  show ?case
  proof (intro impI allI)
    fix n rest
    assume wf: "wf_elems (v # w # vs)" and len: "length (stringify_elems (v # w # vs)) < n"
    from len obtain m where n: "n = Suc m" by (cases n) auto
    let ?tail = "stringify_elems (w # vs) @ CHR '']'' # rest"
    from len n have l1: "length (stringify v) \<le> m" by simp
    from len n stringify_ne [of v] have l2: "length (stringify_elems (w # vs)) < m"
      by (cases "stringify v") simp_all
    from "9.IH"(1) wf l1
    have "parse_value m (stringify v @ CHR '','' # ?tail) = Some (v, CHR '','' # ?tail)"
      by (simp add: delim_simps)
    from pe_more [OF this]
    have "parse_elems (Suc m) (stringify v @ CHR '','' # ?tail) = consed v (parse_elems m ?tail)" .
    moreover from "9.IH"(2) wf l2 have "parse_elems m ?tail = Some (w # vs, rest)" by simp
    ultimately show "parse_elems n (stringify_elems (v # w # vs) @ CHR '']'' # rest) = Some (v # w # vs, rest)"
      by (simp add: n consed_def)
  qed
next
  case 10
  show ?case by simp
next
  case (11 k v)
  show ?case
  proof (intro impI allI)
    fix n rest
    assume wf: "wf_members [(k, v)]" and len: "length (stringify_members [(k, v)]) < n"
    from len obtain m where n: "n = Suc m" by (cases n) auto
    from len n have "length (stringify v) \<le> m" by simp
    with 11 wf have "parse_value m (stringify v @ CHR ''}'' # rest) = Some (v, CHR ''}'' # rest)"
      by (simp add: delim_simps)
    from pm_last [OF this, of k]
    show "parse_members n (stringify_members [(k, v)] @ CHR ''}'' # rest) = Some ([(k, v)], rest)"
      by (simp add: n)
  qed
next
  case (12 k v m' ms)
  show ?case
  proof (intro impI allI)
    fix n rest
    assume wf: "wf_members ((k, v) # m' # ms)"
      and len: "length (stringify_members ((k, v) # m' # ms)) < n"
    from len obtain m where n: "n = Suc m" by (cases n) auto
    let ?tail = "stringify_members (m' # ms) @ CHR ''}'' # rest"
    from len n have l1: "length (stringify v) \<le> m" by simp
    from len n have l2: "length (stringify_members (m' # ms)) < m"
      by (simp add: quote_json_def)
    from "12.IH"(1) wf l1
    have "parse_value m (stringify v @ CHR '','' # ?tail) = Some (v, CHR '','' # ?tail)"
      by (simp add: delim_simps)
    from pm_more [OF this, of k]
    have "parse_members (Suc m) (quote_json k @ CHR '':'' # stringify v @ CHR '','' # ?tail)
            = consed (k, v) (parse_members m ?tail)" .
    moreover from "12.IH"(2) wf l2 have "parse_members m ?tail = Some (m' # ms, rest)"
      by (cases m') simp
    ultimately
    show "parse_members n (stringify_members ((k, v) # m' # ms) @ CHR ''}'' # rest)
            = Some ((k, v) # m' # ms, rest)"
      by (simp add: n consed_def)
  qed
qed

lemma JSON_roundtrip:
  assumes "wf_json v"
  shows "JSON_parse (JSON_stringify v) = Some v"
proof -
  have "length (stringify v) \<le> Suc (length (stringify v))" by simp
  with roundtrip_mutual(1) [of v] assms
  have "parse_value (Suc (length (stringify v))) (stringify v @ []) = Some (v, [])"
    using delim_simps(4) by blast
  then show ?thesis
    by (simp add: JSON_parse_def JSON_stringify_def skip_ws_def)
qed

lemma stringify_nonempty: "JSON_stringify v \<noteq> []"
  by (simp add: JSON_stringify_def stringify_ne)

section \<open>Storage lemmas\<close>

subsection \<open>Falsy fields and bound parameters\<close>

lemma falsy_cases:
  "(\<not> truthy_opt x) =
   (x = None \<or> x = Some JNull \<or> x = Some (JBool False) \<or> x = Some (JNum 0) \<or> x = Some (JStr []))"
proof (cases x)
  case None
  then show ?thesis by (simp add: truthy_opt_def)
next
  case (Some v)
  then show ?thesis by (cases v) (simp_all add: truthy_opt_def)
qed

lemma env_key_falsy:
  "(\<not> truthy_opt (map_option JStr k)) = (k = None \<or> k = Some [])"
  by (cases k) (simp_all add: truthy_opt_def)

lemma text_affinity_null: "(apply_affinity TEXT v = SqlNull) = (v = SqlNull)"
  by (cases v) (simp_all add: apply_affinity_def)

lemma truthy_stored: "truthy_opt k \<Longrightarrow> stored_text k \<noteq> SqlNull"
proof (cases k)
  case None
  assume "truthy_opt k" with None show ?thesis by (simp add: truthy_opt_def)
next
  case (Some v)
  assume "truthy_opt k"
  with Some show ?thesis
    by (cases v) (simp_all add: truthy_opt_def stored_text_def bind_param_def apply_affinity_def)
qed

lemma truthy_bound: "truthy_opt x \<Longrightarrow> bind_param x \<noteq> SqlNull"
  using truthy_stored [of x] by (simp add: stored_text_def text_affinity_null)

lemma stored_text_cases:
  "stored_text None = SqlNull"
  "stored_text (Some JNull) = SqlNull"
  "stored_text (Some (JStr s)) = SqlText s"
  "stored_text (Some (JNum n)) = SqlText (show_int n)"
  "stored_text (Some (JBool b)) = SqlText (show_int (if b then 1 else 0))"
  "stored_text (stringify_or_null None) = SqlNull"
  "stored_text (stringify_or_null (Some v)) =
     (if truthy v then SqlText (JSON_stringify v) else SqlNull)"
  by (simp_all add: stored_text_def bind_param_def apply_affinity_def stringify_or_null_def)

subsection \<open>Statements on the three tables\<close>

lemmas schema_defs = formulas_schema_def problems_schema_def submitted_content_schema_def
  text_column_def timestamp_column_def

lemma sql_insert_fault: "sql_insert (Some m) sch ts binds t = Inl (DriverError m)"
  by (simp add: sql_insert_def)

lemma insert_submitted_content:
  "sql_insert None submitted_content_schema ts
     [(''prompt'', p), (''schema'', s), (''ai_response'', a)] t =
   (if p = SqlNull then Inl (NotNullFailed ''submitted_content'' ''prompt'')
    else Inr (next_rowid t,
              t\<lparr>rows := rows t @
                   [ [(''id'', SqlInt (next_rowid t)),
                     (''prompt'', apply_affinity TEXT p),
                     (''schema'', apply_affinity TEXT s),
                     (''ai_response'', apply_affinity TEXT a),
                     (''timestamp'', apply_affinity NUMERIC (SqlText ts))] ],
                 seq := next_rowid t\<rparr>))"
  by (simp add: sql_insert_def submitted_content_schema_def text_column_def timestamp_column_def
      new_row_def violates_not_null_def violates_unique_def col_def default_value_def Let_def
      text_affinity_null)

lemma insert_formulas:
  "sql_insert None formulas_schema ts
     [(''key'', k), (''category'', c1), (''subject'', c2), (''topic'', c3), (''sub_topic'', c4),
      (''formula'', c5), (''description'', c6), (''variables'', c7), (''connections'', c8),
      (''examples'', c9), (''verified_by_ai'', c10), (''custom_user'', c11)] t =
   (if k = SqlNull then Inl (NotNullFailed ''formulas'' ''key'')
    else if list_ex (\<lambda>r'. col r' ''key'' = apply_affinity TEXT k) (rows t)
      then Inl (UniqueFailed ''formulas'' ''key'')
    else Inr (next_rowid t,
              t\<lparr>rows := rows t @
                   [ [(''id'', SqlInt (next_rowid t)),
                     (''key'', apply_affinity TEXT k),
                     (''category'', apply_affinity TEXT c1),
                     (''subject'', apply_affinity TEXT c2),
                     (''topic'', apply_affinity TEXT c3),
                     (''sub_topic'', apply_affinity TEXT c4),
                     (''formula'', apply_affinity TEXT c5),
                     (''description'', apply_affinity TEXT c6),
                     (''variables'', apply_affinity TEXT c7),
                     (''connections'', apply_affinity TEXT c8),
                     (''examples'', apply_affinity TEXT c9),
                     (''verified_by_ai'', apply_affinity NUMERIC c10),
                     (''custom_user'', apply_affinity TEXT c11),
                     (''timestamp'', apply_affinity NUMERIC (SqlText ts))] ],
                 seq := next_rowid t\<rparr>))"
  by (simp add: sql_insert_def schema_defs new_row_def violates_not_null_def violates_unique_def
      col_def default_value_def Let_def text_affinity_null)

lemma insert_problems:
  "sql_insert None problems_schema ts
     [(''text'', c1), (''answer'', c2), (''formulaKeys'', c3), (''difficulty'', c4),
      (''subject'', c5), (''topic'', c6), (''analysis'', c7), (''hint'', c8),
      (''custom_user'', c9)] t =
   (if c1 = SqlNull then Inl (NotNullFailed ''problems'' ''text'')
    else if c2 = SqlNull then Inl (NotNullFailed ''problems'' ''answer'')
    else Inr (next_rowid t,
              t\<lparr>rows := rows t @
                   [ [(''id'', SqlInt (next_rowid t)),
                     (''text'', apply_affinity TEXT c1),
                     (''answer'', apply_affinity TEXT c2),
                     (''formulaKeys'', apply_affinity TEXT c3),
                     (''difficulty'', apply_affinity TEXT c4),
                     (''subject'', apply_affinity TEXT c5),
                     (''topic'', apply_affinity TEXT c6),
                     (''analysis'', apply_affinity TEXT c7),
                     (''hint'', apply_affinity TEXT c8),
                     (''custom_user'', apply_affinity TEXT c9),
                     (''timestamp'', apply_affinity NUMERIC (SqlText ts))] ],
                 seq := next_rowid t\<rparr>))"
  by (simp add: sql_insert_def schema_defs new_row_def violates_not_null_def violates_unique_def
      col_def default_value_def Let_def text_affinity_null)

lemma formulas_shape_cases:
  assumes "map fst r = ''id'' # map cname (columns formulas_schema)"
  shows "r = [(''id'', col r ''id''), (''key'', col r ''key''), (''category'', col r ''category''),
              (''subject'', col r ''subject''), (''topic'', col r ''topic''),
              (''sub_topic'', col r ''sub_topic''), (''formula'', col r ''formula''),
              (''description'', col r ''description''), (''variables'', col r ''variables''),
              (''connections'', col r ''connections''), (''examples'', col r ''examples''),
              (''verified_by_ai'', col r ''verified_by_ai''), (''custom_user'', col r ''custom_user''),
              (''timestamp'', col r ''timestamp'')]"
proof -
  from assms obtain v0 v1 v2 v3 v4 v5 v6 v7 v8 v9 v10 v11 v12 v13 where
    "r = [(''id'', v0), (''key'', v1), (''category'', v2), (''subject'', v3), (''topic'', v4),
          (''sub_topic'', v5), (''formula'', v6), (''description'', v7), (''variables'', v8),
          (''connections'', v9), (''examples'', v10), (''verified_by_ai'', v11),
          (''custom_user'', v12), (''timestamp'', v13)]"
    by (auto simp: schema_defs map_eq_Cons_conv)
  then show ?thesis by (simp add: col_def)
qed

lemma formulas_key_affinity: "column_affinity formulas_schema ''key'' = TEXT"
  by (simp add: column_affinity_def schema_defs)

lemma where_key:
  "where_eq formulas_schema ''key'' (bind_param k) r =
     (stored_text k \<noteq> SqlNull \<and> col r ''key'' = stored_text k)"
  by (simp add: where_eq_def formulas_key_affinity stored_text_def Let_def)

lemma assign_formula:
  assumes "map fst r = ''id'' # map cname (columns formulas_schema)"
      and "col r ''key'' = stored_text (get_field req ''key'')"
  shows "assign formulas_schema (formula_sets ts req) r = formula_row (col r ''id'') ts req"
  by (subst formulas_shape_cases [OF assms(1)])
     (simp add: assign_def formula_sets_def formula_row_def column_affinity_def schema_defs
        stored_text_def assms(2) [unfolded stored_text_def])

lemma formula_row_shape:
  "map fst (formula_row idv ts req) = ''id'' # map cname (columns formulas_schema)"
  by (simp add: formula_row_def schema_defs)

lemma formula_row_key: "col (formula_row idv ts req) ''key'' = stored_text (get_field req ''key'')"
  by (simp add: formula_row_def col_def)


lemma formula_row_absent:
  assumes "get_field req c = None"
      and "c \<in> set [''category'', ''subject'', ''topic'', ''sub_topic'', ''description'',
                     ''variables'', ''connections'', ''examples'', ''verified_by_ai'',
                     ''custom_user'']"
  shows "col (formula_row idv ts req) c = SqlNull"
proof -
  have n: "stored_text None = SqlNull"
    "apply_affinity NUMERIC (bind_param None) = SqlNull"
    "stored_text (stringify_or_null None) = SqlNull"
    by (simp_all add: stored_text_def bind_param_def apply_affinity_def stringify_or_null_def)
  from assms(2) have "c = ''category'' \<or> c = ''subject'' \<or> c = ''topic'' \<or> c = ''sub_topic''
      \<or> c = ''description'' \<or> c = ''variables'' \<or> c = ''connections'' \<or> c = ''examples''
      \<or> c = ''verified_by_ai'' \<or> c = ''custom_user''"
    unfolding list.set insert_iff empty_iff by simp
  from this assms(1) show ?thesis
    by (elim disjE) (simp_all add: formula_row_def col_def n)
qed

lemma formula_row_not_null:
  "stored_text (get_field req ''key'') \<noteq> SqlNull \<Longrightarrow>
   violates_not_null formulas_schema (formula_row idv ts req) = None"
  by (simp add: violates_not_null_def schema_defs formula_row_def col_def)

lemma formula_sets_unique: "unique_broken formulas_schema (formula_sets ts req) rs = None"
  by (simp add: unique_broken_def schema_defs formula_sets_def)

lemma find_where:
  "find P xs = Some r \<Longrightarrow> r \<in> set xs \<and> P r"
  by (induction xs) (auto split: if_splits)


lemma update_formulas:
  assumes sh: "shaped formulas_schema t"
      and kv: "stored_text (get_field req ''key'') \<noteq> SqlNull"
  shows "sql_update None formulas_schema (formula_sets ts req) ''key''
           (bind_param (get_field req ''key'')) t =
         Inr (t\<lparr>rows := map (\<lambda>r. if col r ''key'' = stored_text (get_field req ''key'')
                                   then formula_row (col r ''id'') ts req else r) (rows t)\<rparr>)"
proof -
  let ?k = "stored_text (get_field req ''key'')"
  let ?W = "where_eq formulas_schema ''key'' (bind_param (get_field req ''key''))"
  have W: "?W r = (col r ''key'' = ?k)" for r
    using kv by (simp add: where_key)
  have step: "(if ?W r then assign formulas_schema (formula_sets ts req) r else r) =
              (if col r ''key'' = ?k then formula_row (col r ''id'') ts req else r)"
    if "r \<in> set (rows t)" for r
  proof -
    from sh that have "map fst r = ''id'' # map cname (columns formulas_schema)"
      by (simp add: shaped_def list_all_iff)
    then show ?thesis by (simp add: W assign_formula)
  qed
  have rs: "map (\<lambda>r. if ?W r then assign formulas_schema (formula_sets ts req) r else r) (rows t) =
            map (\<lambda>r. if col r ''key'' = ?k then formula_row (col r ''id'') ts req else r) (rows t)"
    using step by (simp cong: map_cong)
  show ?thesis
  proof (cases "find ?W (rows t)")
    case None
    then have "\<forall>r \<in> set (rows t). \<not> ?W r" by (simp add: find_None_iff)
    then have "map (\<lambda>r. if col r ''key'' = ?k then formula_row (col r ''id'') ts req else r) (rows t)
                = rows t"
      by (simp add: W map_idI)
    with None show ?thesis by (simp add: sql_update_def)
  next
    case (Some r0)
    then have r0: "r0 \<in> set (rows t)" "?W r0" using find_where by fast+
    from sh r0(1) have "map fst r0 = ''id'' # map cname (columns formulas_schema)"
      by (simp add: shaped_def list_all_iff)
    with r0(2) have a0: "assign formulas_schema (formula_sets ts req) r0 = formula_row (col r0 ''id'') ts req"
      by (simp add: W assign_formula)
    show ?thesis
      unfolding sql_update_def
      by (simp add: Some a0 formula_row_not_null [OF kv] formula_sets_unique rs Let_def)
  qed
qed

subsection \<open>The effect of save-formula\<close>

lemma map_of_project:
  "map_of (filter (\<lambda>(c, v). c \<in> S) r) c = (if c \<in> S then map_of r c else None)"
  by (induction r) auto

lemma col_project: "c \<in> S \<Longrightarrow> col (filter (\<lambda>(c, v). c \<in> S) r) c = col r c"
  by (simp add: col_def map_of_project)

lemma col_project_id: "col (filter (\<lambda>(c, v). c = ''id'') r) ''id'' = col r ''id''"
  using col_project [of "''id''" "{''id''}" r] by simp

lemma formula_fields:
  "[(''category'', bind_param (get_field req ''category'')),
    (''subject'', bind_param (get_field req ''subject'')),
    (''topic'', bind_param (get_field req ''topic'')),
    (''sub_topic'', bind_param (get_field req ''sub_topic'')),
    (''formula'', bind_param (get_field req ''formula'')),
    (''description'', bind_param (get_field req ''description'')),
    (''variables'', bind_param (stringify_or_null (get_field req ''variables''))),
    (''connections'', bind_param (stringify_or_null (get_field req ''connections''))),
    (''examples'', bind_param (stringify_or_null (get_field req ''examples''))),
    (''verified_by_ai'', bind_param (get_field req ''verified_by_ai'')),
    (''custom_user'', bind_param (get_field req ''custom_user''))] @
   [(''timestamp'', SqlText ts)] = formula_sets ts req"
  by (simp add: formula_sets_def)

lemma lookup_formula:
  assumes "stored_text (get_field req ''key'') \<noteq> SqlNull" and "read_fault e = None"
  shows "formula_lookup e req st =
           Inr (map_option (\<lambda>r. filter (\<lambda>(c, v). c \<in> set [''id'']) r)
                  (find (has_key req) (rows (formulas st))))"
proof -
  have "where_eq formulas_schema ''key'' (bind_param (get_field req ''key'')) = has_key req"
    using assms(1) by (auto simp: where_key has_key_def fun_eq_iff)
  then show ?thesis
    by (simp add: formula_lookup_def sql_get_def assms(2))
qed

lemma write_formula:
  assumes sh: "shaped formulas_schema (formulas st)"
      and kv: "stored_text (get_field req ''key'') \<noteq> SqlNull"
      and wf: "write_fault e = None"
      and found: "found = map_option (\<lambda>r. filter (\<lambda>(c, v). c \<in> set [''id'']) r)
                           (find (has_key req) (rows (formulas st)))"
  shows "fst (formula_write e req found st) =
           saved ''Formula saved successfully.'' (js_of_sql (formula_ident req (formulas st)))"
    and "formulas (snd (formula_write e req found st)) = formulas_after (now e) req (formulas st)"
proof -
  have nn: "bind_param (get_field req ''key'') \<noteq> SqlNull"
    using kv by (simp add: stored_text_def text_affinity_null)
  show "fst (formula_write e req found st) =
           saved ''Formula saved successfully.'' (js_of_sql (formula_ident req (formulas st)))"
    and "formulas (snd (formula_write e req found st)) = formulas_after (now e) req (formulas st)"
  proof (atomize (full), cases "find (has_key req) (rows (formulas st))")
    case None
    then have "\<not> list_ex (has_key req) (rows (formulas st))"
      by (simp add: find_None_iff list_ex_iff)
    then have ex: "\<not> list_ex (\<lambda>r'. col r' ''key'' =
                      apply_affinity TEXT (bind_param (get_field req ''key''))) (rows (formulas st))"
      by (simp add: has_key_def stored_text_def list_ex_iff)
    show "fst (formula_write e req found st) =
            saved ''Formula saved successfully.'' (js_of_sql (formula_ident req (formulas st))) \<and>
          formulas (snd (formula_write e req found st)) = formulas_after (now e) req (formulas st)"
      unfolding formula_write_def Let_def found None option.map option.case wf insert_formulas
      using nn ex
      by (simp add: formula_ident_def formulas_after_def None js_of_sql_def formula_row_def
          stored_text_def)
  next
    case (Some r0)
    have up: "sql_update None formulas_schema (formula_sets (now e) req) ''key''
                 (bind_param (get_field req ''key'')) (formulas st) =
              Inr ((formulas st)\<lparr>rows := map (\<lambda>r. if has_key req r
                       then formula_row (col r ''id'') (now e) req else r) (rows (formulas st))\<rparr>)"
      using update_formulas [OF sh kv] by (simp add: has_key_def)
    show "fst (formula_write e req found st) =
            saved ''Formula saved successfully.'' (js_of_sql (formula_ident req (formulas st))) \<and>
          formulas (snd (formula_write e req found st)) = formulas_after (now e) req (formulas st)"
      unfolding formula_write_def Let_def found Some option.map option.case wf formula_fields up
      by (simp add: formula_ident_def formulas_after_def Some col_project_id)
  qed
qed

lemma save_formula_effect:
  assumes "shaped formulas_schema (formulas st)"
      and "truthy_opt (get_field req ''key'')" and "truthy_opt (get_field req ''formula'')"
      and "read_fault e = None" and "write_fault e = None"
  shows "fst (save_formula e req st) =
           saved ''Formula saved successfully.'' (js_of_sql (formula_ident req (formulas st)))"
    and "formulas (snd (save_formula e req st)) = formulas_after (now e) req (formulas st)"
proof -
  have kv: "stored_text (get_field req ''key'') \<noteq> SqlNull"
    using assms(2) by (rule truthy_stored)
  have "save_formula e req st =
          formula_write e req (map_option (\<lambda>r. filter (\<lambda>(c, v). c \<in> set [''id'']) r)
                           (find (has_key req) (rows (formulas st)))) st"
    using assms(2,3) by (simp add: save_formula_def lookup_formula [OF kv assms(4)])
  then show "fst (save_formula e req st) =
           saved ''Formula saved successfully.'' (js_of_sql (formula_ident req (formulas st)))"
    and "formulas (snd (save_formula e req st)) = formulas_after (now e) req (formulas st)"
    using write_formula [OF assms(1) kv assms(5) refl] by simp_all
qed

lemma has_key_row: "has_key req (formula_row idv ts req)"
  by (simp add: has_key_def formula_row_key)


lemma upd_has_key:
  "has_key req (if has_key req r then formula_row (col r ''id'') ts req else r) = has_key req r"
  by (simp add: has_key_row)

lemma filter_upd:
  "filter (has_key req) (map (\<lambda>r. if has_key req r then formula_row (col r ''id'') ts req else r) rs)
   = map (\<lambda>r. formula_row (col r ''id'') ts req) (filter (has_key req) rs)"
  by (induction rs) (simp_all add: has_key_row)

lemma unique_filter:
  assumes "distinct (filter (\<lambda>v. v \<noteq> SqlNull) (map f xs))" and "k \<noteq> SqlNull"
      and "find (\<lambda>r. f r = k) xs = Some r0"
  shows "filter (\<lambda>r. f r = k) xs = [r0]"
  using assms
proof (induction xs)
  case Nil
  then show ?case by simp
next
  case (Cons x xs)
  show ?case
  proof (cases "f x = k")
    case True
    with Cons.prems have r0: "r0 = x" by simp
    from Cons.prems True have "k \<notin> set (filter (\<lambda>v. v \<noteq> SqlNull) (map f xs))" by simp
    with Cons.prems(2) have "\<forall>r \<in> set xs. f r \<noteq> k" by auto
    then have "filter (\<lambda>r. f r = k) xs = []" by (simp add: filter_empty_conv)
    with True r0 show ?thesis by simp
  next
    case False
    with Cons.prems have "distinct (filter (\<lambda>v. v \<noteq> SqlNull) (map f xs))"
      and "find (\<lambda>r. f r = k) xs = Some r0" by (auto split: if_splits)
    with Cons.IH Cons.prems(2) False show ?thesis by simp
  qed
qed

lemma has_key_filter:
  assumes "unique_keys t" and "stored_text (get_field req ''key'') \<noteq> SqlNull"
      and "find (has_key req) (rows t) = Some r0"
  shows "filter (has_key req) (rows t) = [r0]"
proof -
  have eq: "has_key req = (\<lambda>r. col r ''key'' = stored_text (get_field req ''key''))"
    by (simp add: has_key_def fun_eq_iff)
  show ?thesis
    using unique_filter [of "\<lambda>r. col r ''key''" "rows t" "stored_text (get_field req ''key'')" r0]
      assms unfolding eq unique_keys_def by simp
qed

lemma after_filter:
  assumes "unique_keys t" and "stored_text (get_field req ''key'') \<noteq> SqlNull"
  shows "filter (has_key req) (rows (formulas_after ts req t)) =
           [formula_row (formula_ident req t) ts req]"
proof (cases "find (has_key req) (rows t)")
  case None
  then have "filter (has_key req) (rows t) = []"
    by (simp add: find_None_iff filter_empty_conv)
  with None show ?thesis
    by (simp add: formulas_after_def formula_ident_def has_key_row)
next
  case (Some r0)
  from has_key_filter [OF assms Some] Some show ?thesis
    by (simp add: formulas_after_def formula_ident_def filter_upd)
qed

lemma after_shaped:
  assumes "shaped formulas_schema t"
  shows "shaped formulas_schema (formulas_after ts req t)"
  using assms
  by (cases "find (has_key req) (rows t)")
     (auto simp: formulas_after_def shaped_def list_all_iff formula_row_shape)

lemma after_unique:
  assumes "unique_keys t" and "stored_text (get_field req ''key'') \<noteq> SqlNull"
  shows "unique_keys (formulas_after ts req t)"
proof (cases "find (has_key req) (rows t)")
  case None
  then have "\<forall>r \<in> set (rows t). col r ''key'' \<noteq> stored_text (get_field req ''key'')"
    by (simp add: find_None_iff has_key_def)
  then have "stored_text (get_field req ''key'') \<notin> set (map (\<lambda>r. col r ''key'') (rows t))"
    by auto
  with assms None show ?thesis
    by (simp add: formulas_after_def unique_keys_def formula_row_key)
next
  case (Some r0)
  have "col (if has_key req r then formula_row (col r ''id'') ts req else r) ''key'' = col r ''key''" for r
    by (simp add: formula_row_key has_key_def)
  then have km: "map ((\<lambda>r. col r ''key'') \<circ>
                    (\<lambda>r. if has_key req r then formula_row (col r ''id'') ts req else r)) (rows t)
             = map (\<lambda>r. col r ''key'') (rows t)"
    by (simp add: comp_def)
  from assms(1) Some show ?thesis
    by (simp add: formulas_after_def unique_keys_def km)
qed


subsection \<open>The effect of save-problem\<close>

lemma bind_positional:
  "positional x \<Longrightarrow> bind_arguments (x # rest) = Inr (map bind_param (x # rest))"
  by (auto simp: bind_arguments_def positional_def split: option.splits json.splits)

lemma save_problem_effect:
  assumes "truthy_opt (get_field req ''text'')" and "truthy_opt (get_field req ''answer'')"
      and "write_fault e = None" and "positional (get_field req ''text'')"
  shows "save_problem e req st =
           (saved ''Problem saved successfully.'' (JNum (next_rowid (problems st))),
            st\<lparr>problems := problems_after (now e) req (problems st),
               console := console st @
                 [Log (''Problem saved with ID: '' @ show_int (next_rowid (problems st)))]\<rparr>)"
  using assms(1,2) truthy_bound [OF assms(1)] truthy_bound [OF assms(2)]
  unfolding save_problem_def Let_def assms(3) bind_positional [OF assms(4)]
  by (simp add: insert_problems problems_after_def problem_row_def stored_text_def)

lemma row_id_le_max: "r \<in> set rs \<Longrightarrow> row_id r \<le> max_rowid rs"
  by (induction rs) (auto simp: max_rowid_def)

lemma row_id_lt_next: "r \<in> set (rows t) \<Longrightarrow> row_id r < next_rowid t"
  using row_id_le_max [of r "rows t"] by (simp add: next_rowid_def)

lemma problem_row_id: "row_id (problem_row (SqlInt n) ts req) = n"
  by (simp add: row_id_def col_def problem_row_def)

lemma next_rowid_after: "next_rowid t < next_rowid (problems_after ts req t)"
  by (simp add: next_rowid_def problems_after_def)

lemma run_saves_Cons:
  "run_saves ((e, req) # calls) st = run_saves calls (snd (save_problem e req st))"
  by (simp add: run_saves_def)

lemma run_saves_rows:
  assumes "truthy_opt tx" and "truthy_opt an"
      and "positional tx"
      and "list_all (\<lambda>(e, req). write_fault e = None \<and> get_field req ''text'' = tx \<and>
                      get_field req ''answer'' = an) calls"
  shows "\<exists>added. rows (problems (run_saves calls st)) = rows (problems st) @ added
           \<and> length added = length calls
           \<and> distinct (map row_id added)
           \<and> list_all (\<lambda>r. col r ''id'' = SqlInt (row_id r)
                          \<and> next_rowid (problems st) \<le> row_id r
                          \<and> col r ''text'' = stored_text tx
                          \<and> col r ''answer'' = stored_text an) added"
  using assms(4)
proof (induction calls arbitrary: st)
  case Nil
  show ?case by (simp add: run_saves_def)
next
  case (Cons c calls)
  obtain e req where c: "c = (e, req)" by (cases c)
  from Cons.prems c have wf: "write_fault e = None" and tx: "get_field req ''text'' = tx"
    and an: "get_field req ''answer'' = an" and rest: "list_all (\<lambda>(e, req). write_fault e = None \<and>
        get_field req ''text'' = tx \<and> get_field req ''answer'' = an) calls"
    by simp_all
  let ?st1 = "snd (save_problem e req st)"
  let ?r1 = "problem_row (SqlInt (next_rowid (problems st))) (now e) req"
  have t1: "problems ?st1 = problems_after (now e) req (problems st)"
    using save_problem_effect [of req e st] assms(1,2,3) wf tx an by simp
  from Cons.IH [OF rest, of ?st1] obtain added where
    a: "rows (problems (run_saves calls ?st1)) = rows (problems ?st1) @ added"
      "length added = length calls" "distinct (map row_id added)"
      "list_all (\<lambda>r. col r ''id'' = SqlInt (row_id r)
                          \<and> next_rowid (problems ?st1) \<le> row_id r
                          \<and> col r ''text'' = stored_text tx
                          \<and> col r ''answer'' = stored_text an) added"
    by blast
  have lt: "next_rowid (problems st) < next_rowid (problems ?st1)"
    by (simp add: t1 next_rowid_after)
  have r1: "row_id ?r1 = next_rowid (problems st)" by (rule problem_row_id)
  have fresh: "row_id ?r1 \<notin> set (map row_id added)"
    using a(4) lt r1 by (auto simp: list_all_iff)
  have r1cols: "col ?r1 ''id'' = SqlInt (row_id ?r1)" "col ?r1 ''text'' = stored_text tx"
    "col ?r1 ''answer'' = stored_text an"
    by (simp_all add: r1 tx [symmetric] an [symmetric]) (simp_all add: col_def problem_row_def)
  have later: "list_all (\<lambda>r. col r ''id'' = SqlInt (row_id r)
                          \<and> next_rowid (problems st) \<le> row_id r
                          \<and> col r ''text'' = stored_text tx
                          \<and> col r ''answer'' = stored_text an) added"
    using a(4) lt by (auto simp: list_all_iff)
  have "rows (problems (run_saves (c # calls) st)) = rows (problems st) @ (?r1 # added)"
    using a(1) by (simp add: c run_saves_Cons t1 problems_after_def)
  moreover have "length (?r1 # added) = length (c # calls)" using a(2) by simp
  moreover have "distinct (map row_id (?r1 # added))" using a(3) fresh by simp
  moreover have "list_all (\<lambda>r. col r ''id'' = SqlInt (row_id r)
                          \<and> next_rowid (problems st) \<le> row_id r
                          \<and> col r ''text'' = stored_text tx
                          \<and> col r ''answer'' = stored_text an) (?r1 # added)"
    using later r1cols r1 by simp
  ultimately show ?case by blast
qed

lemma filter_new_problem:
  "filter (\<lambda>r. col r ''id'' = SqlInt (next_rowid t)) (rows (problems_after ts req t)) =
     [problem_row (SqlInt (next_rowid t)) ts req]"
proof -
  have "col r ''id'' \<noteq> SqlInt (next_rowid t)" if "r \<in> set (rows t)" for r
    using row_id_lt_next [OF that] by (auto simp: row_id_def)
  then have "filter (\<lambda>r. col r ''id'' = SqlInt (next_rowid t)) (rows t) = []"
    by (simp add: filter_empty_conv)
  then show ?thesis
    by (simp add: problems_after_def) (simp add: problem_row_def col_def)
qed

subsection \<open>Listing\<close>

lemma set_insert_sorted: "set (insert_sorted le r xs) = insert r (set xs)"
  by (induction xs) auto

lemma count_insert_sorted:
  "length (filter P (insert_sorted le r xs)) = length (filter P (r # xs))"
  by (induction xs) auto

lemma order_by_fold:
  "set (foldl (\<lambda>acc r. insert_sorted le r acc) acc rs) = set acc \<union> set rs \<and>
   length (filter P (foldl (\<lambda>acc r. insert_sorted le r acc) acc rs)) =
     length (filter P acc) + length (filter P rs)"
proof (induction rs arbitrary: acc)
  case Nil
  show ?case by simp
next
  case (Cons r rs)
  show ?case
    using Cons.IH [of "insert_sorted le r acc"]
    by (auto simp: set_insert_sorted count_insert_sorted)
qed

lemma set_order_by: "set (order_by le rs) = set rs"
  using order_by_fold [where acc = "[]" and le = le and rs = rs] by (simp add: order_by_def)

lemma count_order_by: "length (filter P (order_by le rs)) = length (filter P rs)"
  using order_by_fold [where acc = "[]" and P = P and le = le and rs = rs] by (simp add: order_by_def)

lemma filter_order_by_single:
  assumes "filter P rs = [r0]"
  shows "filter P (order_by le rs) = [r0]"
proof -
  have len: "length (filter P (order_by le rs)) = 1"
    using assms by (simp add: count_order_by)
  then obtain x where x: "filter P (order_by le rs) = [x]"
    by (cases "filter P (order_by le rs)") auto
  then have "x \<in> set (filter P (order_by le rs))" by simp
  then have "x \<in> set (filter P rs)" by (simp add: set_order_by)
  with assms have "x = r0" by simp
  with x show ?thesis by simp
qed

lemma map_all_list_all2:
  "(map_all f xs = Some ys) = list_all2 (\<lambda>x y. f x = Some y) xs ys"
proof (induction xs arbitrary: ys)
  case Nil
  show ?case by auto
next
  case (Cons x xs)
  show ?case
    by (cases ys) (auto simp: Cons.IH [symmetric] split: option.splits)
qed

lemma map_all_total:
  "list_all (\<lambda>x. f x \<noteq> None) xs \<Longrightarrow> \<exists>ys. map_all f xs = Some ys"
  by (induction xs) auto

lemma list_all2_filter:
  assumes "list_all2 R xs ys" and "\<And>x y. R x y \<Longrightarrow> P x = Q y"
  shows "list_all2 R (filter P xs) (filter Q ys)"
  using assms(1)
proof (induction rule: list_all2_induct)
  case Nil
  show ?case by simp
next
  case (Cons x xs y ys)
  with assms(2) [of x y] show ?case by simp
qed

lemma views_of_single:
  assumes all: "map_all view rs = Some views"
      and rel: "\<And>r v. view r = Some v \<Longrightarrow> P r = Q v"
      and one: "filter P rs = [r0]"
  shows "\<exists>v0. filter Q views = [v0] \<and> view r0 = Some v0"
proof -
  from all have "list_all2 (\<lambda>r v. view r = Some v) rs views"
    by (simp add: map_all_list_all2)
  from list_all2_filter [OF this rel]
  have "list_all2 (\<lambda>r v. view r = Some v) (filter P rs) (filter Q views)" by simp
  with one show ?thesis
    by (auto simp: list_all2_Cons1)
qed

lemma map_of_obj_set:
  "map_of (obj_set ps k v) k' = (if k' = k then Some v else map_of ps k')"
  by (induction ps) auto

lemma map_of_row_object: "map_of (row_object r) c = map_option js_of_sql (map_of r c)"
  by (induction r) (auto simp: row_object_def)

lemma js_of_sql_inj: "(js_of_sql a = js_of_sql b) = (a = b)"
  by (cases a; cases b) (simp_all add: js_of_sql_def)

lemma col_eq_iff: "v \<noteq> SqlNull \<Longrightarrow> (col r c = v) = (map_of r c = Some v)"
  by (auto simp: col_def split: option.splits)

lemma view_field_eq:
  assumes "v \<noteq> SqlNull"
  shows "(map_option js_of_sql (map_of r c) = Some (js_of_sql v)) = (col r c = v)"
  by (cases "map_of r c") (auto simp: col_eq_iff [OF assms] js_of_sql_inj)

lemma parse_or_empty_null:
  "map_of r c = Some SqlNull \<or> map_of r c = None \<Longrightarrow> parse_or_empty r c = Some (JArr [])"
  by (auto simp: parse_or_empty_def js_of_sql_def)

lemma parse_or_empty_stored:
  assumes "map_of r c = Some (stored_text (stringify_or_null x))" and "\<forall>v. x = Some v \<longrightarrow> wf_json v"
  shows "parse_or_empty r c = (if truthy_opt x then x else Some (JArr []))"
proof (cases x)
  case None
  with assms(1) show ?thesis
    by (simp add: parse_or_empty_def stringify_or_null_def stored_text_def bind_param_def
        apply_affinity_def js_of_sql_def truthy_opt_def)
next
  case (Some v)
  with assms(2) have wf: "wf_json v" by simp
  show ?thesis
  proof (cases "truthy v")
    case True
    with assms(1) Some show ?thesis
      by (simp add: parse_or_empty_def stringify_or_null_def stored_text_def bind_param_def
          apply_affinity_def js_of_sql_def truthy_opt_def stringify_nonempty
          JSON_roundtrip [OF wf])
  next
    case False
    with assms(1) Some show ?thesis
      by (simp add: parse_or_empty_def stringify_or_null_def stored_text_def bind_param_def
          apply_affinity_def js_of_sql_def truthy_opt_def)
  qed
qed

lemma wf_members_field: "wf_members ms \<Longrightarrow> map_of ms k = Some v \<Longrightarrow> wf_json v"
  by (induction ms) (auto split: if_splits)

lemma wf_field: "wf_json req \<Longrightarrow> get_field req k = Some v \<Longrightarrow> wf_json v"
  by (cases req) (auto dest: wf_members_field)

lemma get_problems_ok:
  assumes "read_fault e = None"
      and "map_all problem_view
             (order_by (\<lambda>a b. sql_le (col b ''timestamp'') (col a ''timestamp'')) (rows (problems st)))
           = Some views"
  shows "get_problems e st =
           (Some \<lparr>status = 200,
                  body = JObj [(''success'', JBool True), (''problems'', JArr views)]\<rparr>, st)"
  using assms by (simp add: get_problems_def sql_all_def)

lemma get_formulas_ok:
  assumes "read_fault e = None"
      and "map_all formula_view
             (order_by (\<lambda>a b. sql_le (col a ''key'') (col b ''key'')) (rows (formulas st)))
           = Some views"
  shows "get_formulas e st =
           (Some \<lparr>status = 200,
                  body = JObj [(''success'', JBool True), (''formulas'', JArr views)]\<rparr>, st)"
  using assms by (simp add: get_formulas_def sql_all_def)

lemma problem_view_fields:
  assumes "problem_view r = Some v"
  shows "get_field v ''formulaKeys'' = parse_or_empty r ''formulaKeys''"
    and "c \<noteq> ''formulaKeys'' \<Longrightarrow> get_field v c = map_option js_of_sql (map_of r c)"
  using assms
  by (auto simp: problem_view_def map_of_obj_set map_of_row_object split: option.splits)

lemma formula_view_fields:
  assumes "formula_view r = Some v"
  shows "get_field v ''variables'' = parse_or_empty r ''variables''"
    and "get_field v ''connections'' = parse_or_empty r ''connections''"
    and "get_field v ''examples'' = parse_or_empty r ''examples''"
    and "c \<noteq> ''variables'' \<Longrightarrow> c \<noteq> ''connections'' \<Longrightarrow> c \<noteq> ''examples'' \<Longrightarrow>
         get_field v c = map_option js_of_sql (map_of r c)"
  using assms
  by (auto simp: formula_view_def map_of_obj_set map_of_row_object split: option.splits)

lemma problem_row_view:
  assumes "get_field req ''formulaKeys'' = None"
  shows "\<exists>v. problem_view (problem_row idv ts req) = Some v"
proof -
  have "map_of (problem_row idv ts req) ''formulaKeys'' = Some SqlNull"
    using assms
    by (simp add: problem_row_def stringify_or_null_def stored_text_def bind_param_def
        apply_affinity_def)
  then have "parse_or_empty (problem_row idv ts req) ''formulaKeys'' = Some (JArr [])"
    by (simp add: parse_or_empty_null)
  then show ?thesis by (simp add: problem_view_def)
qed

lemma formula_row_composites:
  assumes "wf_json req"
  shows "parse_or_empty (formula_row idv ts req) ''variables'' =
           (if truthy_opt (get_field req ''variables'') then get_field req ''variables''
            else Some (JArr []))"
    and "parse_or_empty (formula_row idv ts req) ''connections'' =
           (if truthy_opt (get_field req ''connections'') then get_field req ''connections''
            else Some (JArr []))"
    and "parse_or_empty (formula_row idv ts req) ''examples'' =
           (if truthy_opt (get_field req ''examples'') then get_field req ''examples''
            else Some (JArr []))"
proof -
  have wf: "\<forall>v. get_field req c = Some v \<longrightarrow> wf_json v" for c
    using assms wf_field by blast
  show "parse_or_empty (formula_row idv ts req) ''variables'' =
           (if truthy_opt (get_field req ''variables'') then get_field req ''variables''
            else Some (JArr []))"
    by (rule parse_or_empty_stored [OF _ wf]) (simp add: formula_row_def)
  show "parse_or_empty (formula_row idv ts req) ''connections'' =
           (if truthy_opt (get_field req ''connections'') then get_field req ''connections''
            else Some (JArr []))"
    by (rule parse_or_empty_stored [OF _ wf]) (simp add: formula_row_def)
  show "parse_or_empty (formula_row idv ts req) ''examples'' =
           (if truthy_opt (get_field req ''examples'') then get_field req ''examples''
            else Some (JArr []))"
    by (rule parse_or_empty_stored [OF _ wf]) (simp add: formula_row_def)
qed

lemma some_or_empty: "(if truthy_opt x then x else Some (JArr [])) \<noteq> None"
  by (cases x) (simp_all add: truthy_opt_def)

lemma formula_row_view:
  assumes "wf_json req"
  shows "formula_view (formula_row idv ts req) \<noteq> None"
proof -
  have "parse_or_empty (formula_row idv ts req) ''variables'' \<noteq> None"
    "parse_or_empty (formula_row idv ts req) ''connections'' \<noteq> None"
    "parse_or_empty (formula_row idv ts req) ''examples'' \<noteq> None"
    by (simp_all only: formula_row_composites [OF assms] some_or_empty not_False_eq_True)
  then show ?thesis by (auto simp: formula_view_def)
qed

lemma after_readable:
  assumes "listable formula_view t" and "wf_json req"
  shows "listable formula_view (formulas_after ts req t)"
  using assms(1) formula_row_view [OF assms(2)]
  by (cases "find (has_key req) (rows t)")
     (auto simp: formulas_after_def list_all_iff listable_def)

lemma formula_listing:
  assumes "shaped formulas_schema (formulas st)" and "unique_keys (formulas st)"
      and "listable formula_view (formulas st)"
      and "wf_json req"
      and "truthy_opt (get_field req ''key'')" and "truthy_opt (get_field req ''formula'')"
      and "read_fault e = None" and "write_fault e = None" and "read_fault e' = None"
  shows "\<exists>views v0.
           fst (get_formulas e' (snd (save_formula e req st))) =
             Some \<lparr>status = 200,
                   body = JObj [(''success'', JBool True), (''formulas'', JArr views)]\<rparr>
         \<and> filter (\<lambda>v. get_field v ''key'' = Some (js_of_sql (stored_text (get_field req ''key''))))
              views = [v0]
         \<and> formula_view (formula_row (formula_ident req (formulas st)) (now e) req) = Some v0
         \<and> filter (\<lambda>r. col r ''key'' = stored_text (get_field req ''key''))
              (rows (formulas (snd (save_formula e req st)))) =
             [formula_row (formula_ident req (formulas st)) (now e) req]"
proof -
  let ?st1 = "snd (save_formula e req st)"
  let ?kv = "stored_text (get_field req ''key'')"
  let ?r1 = "formula_row (formula_ident req (formulas st)) (now e) req"
  let ?le = "\<lambda>a b. sql_le (col a ''key'') (col b ''key'')"
  have kv: "?kv \<noteq> SqlNull" using assms(5) by (rule truthy_stored)
  note eff = save_formula_effect [OF assms(1) assms(5) assms(6) assms(7) assms(8)]
  have hk: "has_key req = (\<lambda>r. col r ''key'' = ?kv)"
    by (simp add: has_key_def fun_eq_iff)
  have one: "filter (\<lambda>r. col r ''key'' = ?kv) (rows (formulas ?st1)) = [?r1]"
    using after_filter [OF assms(2) kv, of "now e"] by (simp add: eff(2) hk)
  have "list_all (\<lambda>r. formula_view r \<noteq> None) (rows (formulas ?st1))"
    using after_readable [OF assms(3,4), of "now e"] by (simp add: eff(2) listable_def)
  then have "list_all (\<lambda>r. formula_view r \<noteq> None) (order_by ?le (rows (formulas ?st1)))"
    by (simp add: list_all_iff set_order_by)
  from map_all_total [OF this] obtain views where
    views: "map_all formula_view (order_by ?le (rows (formulas ?st1))) = Some views" by blast
  have rel: "(col r ''key'' = ?kv) = (get_field v ''key'' = Some (js_of_sql ?kv))"
    if "formula_view r = Some v" for r v
    using formula_view_fields(4) [OF that, of "''key''"] view_field_eq [OF kv, of r "''key''"]
    by simp
  have "\<exists>v0. filter (\<lambda>v. get_field v ''key'' = Some (js_of_sql ?kv)) views = [v0]
           \<and> formula_view ?r1 = Some v0"
  proof (rule views_of_single [where P = "\<lambda>r. col r ''key'' = ?kv"])
    show "map_all formula_view (order_by ?le (rows (formulas ?st1))) = Some views"
      by (rule views)
    show "(col r ''key'' = ?kv) = (get_field v ''key'' = Some (js_of_sql ?kv))"
      if "formula_view r = Some v" for r v
      using that by (rule rel)
    show "filter (\<lambda>r. col r ''key'' = ?kv) (order_by ?le (rows (formulas ?st1))) = [?r1]"
      by (rule filter_order_by_single [OF one])
  qed
  then obtain v0 where "filter (\<lambda>v. get_field v ''key'' = Some (js_of_sql ?kv)) views = [v0]"
    and "formula_view ?r1 = Some v0" by blast
  with one get_formulas_ok [OF assms(9) views] show ?thesis
    by (intro exI [of _ views] exI [of _ v0]) simp
qed

text \<open>
  Every composite field of a saved formula lists as it was supplied, or as the empty
  array when it was absent or falsy.
\<close>

lemma formula_composites_listing:
  assumes "shaped formulas_schema (formulas st)" and "unique_keys (formulas st)"
      and "listable formula_view (formulas st)"
      and "wf_json req"
      and "truthy_opt (get_field req ''key'')" and "truthy_opt (get_field req ''formula'')"
      and "read_fault e = None" and "write_fault e = None" and "read_fault e' = None"
  shows "\<exists>views.
           fst (get_formulas e' (snd (save_formula e req st))) =
             Some \<lparr>status = 200,
                   body = JObj [(''success'', JBool True), (''formulas'', JArr views)]\<rparr>
         \<and> map (\<lambda>v. (get_field v ''variables'', get_field v ''connections'',
                      get_field v ''examples''))
               (filter (\<lambda>v. get_field v ''key'' =
                             Some (js_of_sql (stored_text (get_field req ''key'')))) views)
             = [(if truthy_opt (get_field req ''variables'') then get_field req ''variables''
                 else Some (JArr []),
                 if truthy_opt (get_field req ''connections'') then get_field req ''connections''
                 else Some (JArr []),
                 if truthy_opt (get_field req ''examples'') then get_field req ''examples''
                 else Some (JArr []))]"
proof -
  let ?r1 = "formula_row (formula_ident req (formulas st)) (now e) req"
  from formula_listing [OF assms] obtain views v0 where
    l: "fst (get_formulas e' (snd (save_formula e req st))) =
             Some \<lparr>status = 200,
                   body = JObj [(''success'', JBool True), (''formulas'', JArr views)]\<rparr>"
      "filter (\<lambda>v. get_field v ''key'' = Some (js_of_sql (stored_text (get_field req ''key''))))
              views = [v0]"
      "formula_view ?r1 = Some v0"
    by iprover
  note f = formula_view_fields(1-3) [OF l(3)] formula_row_composites [OF assms(4)]
  show ?thesis
    using l(1,2) by (intro exI [of _ views]) (simp add: f)
qed

subsection \<open>The handlers call the gemini service\<close>

lemma forward_prompt_status:
  "status (fst (forward_prompt g e key prompt schema st)) = 200 \<or>
   status (fst (forward_prompt g e key prompt schema st)) = 500"
  by (simp add: forward_prompt_def failure_def split: upstream.split)

subsection \<open>The assumptions on the tables are invariants\<close>

text \<open>
  The empty tables satisfy them, and every handler keeps them, whatever the environment
  does.
\<close>

lemma init_tables:
  "rows (formulas init_state) = []" "rows (problems init_state) = []"
  "rows (submitted_content init_state) = []"
  by (simp_all add: init_state_def empty_table_def)

lemma init_formulas_ok:
  "shaped formulas_schema (formulas init_state)" "unique_keys (formulas init_state)"
  "listable formula_view (formulas init_state)"
  by (simp_all add: shaped_def unique_keys_def listable_def init_tables)

lemma init_state_ok: "state_ok init_state"
  by (simp add: state_ok_def init_formulas_ok listable_def init_tables)

lemma mapped_unchanged:
  assumes "find (has_key req) (rows t) = None"
  shows "t\<lparr>rows := map (\<lambda>r. if has_key req r then formula_row (col r ''id'') ts req else r) (rows t)\<rparr> = t"
proof -
  from assms have "\<forall>r \<in> set (rows t). \<not> has_key req r" by (simp add: find_None_iff)
  then have "map (\<lambda>r. if has_key req r then formula_row (col r ''id'') ts req else r) (rows t) = rows t"
    by (simp add: map_idI)
  then show ?thesis by simp
qed

lemma formula_write_tables:
  assumes sh: "shaped formulas_schema (formulas st)"
      and kv: "truthy_opt (get_field req ''key'')"
  shows "(formulas (snd (formula_write e req found st)) = formulas st \<or>
          formulas (snd (formula_write e req found st)) = formulas_after (now e) req (formulas st))
         \<and> problems (snd (formula_write e req found st)) = problems st
         \<and> submitted_content (snd (formula_write e req found st)) = submitted_content st"
proof -
  have k: "stored_text (get_field req ''key'') \<noteq> SqlNull" using kv by (rule truthy_stored)
  have nn: "bind_param (get_field req ''key'') \<noteq> SqlNull" using kv by (rule truthy_bound)
  show ?thesis
  proof (cases "write_fault e")
    case (Some m)
    show ?thesis
      unfolding formula_write_def Let_def Some formula_fields
      by (cases found) (simp_all add: sql_insert_fault sql_update_def)
  next
    case None
    show ?thesis
    proof (cases found)
      case fnone: None
      show ?thesis
      proof (cases "list_ex (has_key req) (rows (formulas st))")
        case True
        then have "list_ex (\<lambda>r'. col r' ''key'' =
                      apply_affinity TEXT (bind_param (get_field req ''key''))) (rows (formulas st))"
          by (simp add: has_key_def stored_text_def list_ex_iff)
        then show ?thesis
          unfolding formula_write_def Let_def fnone option.case None insert_formulas
          using nn by simp
      next
        case False
        then have fn: "find (has_key req) (rows (formulas st)) = None"
          by (simp add: find_None_iff list_ex_iff)
        from False have "\<not> list_ex (\<lambda>r'. col r' ''key'' =
                      apply_affinity TEXT (bind_param (get_field req ''key''))) (rows (formulas st))"
          by (simp add: has_key_def stored_text_def list_ex_iff)
        then show ?thesis
          unfolding formula_write_def Let_def fnone option.case None insert_formulas
          using nn by (simp add: formulas_after_def fn formula_row_def stored_text_def)
      qed
    next
      case (Some r)
      have up: "sql_update None formulas_schema (formula_sets (now e) req) ''key''
                 (bind_param (get_field req ''key'')) (formulas st) =
              Inr ((formulas st)\<lparr>rows := map (\<lambda>r. if has_key req r
                       then formula_row (col r ''id'') (now e) req else r) (rows (formulas st))\<rparr>)"
        using update_formulas [OF sh k] by (simp add: has_key_def)
      show ?thesis
      proof (cases "find (has_key req) (rows (formulas st))")
        case fn: None
        show ?thesis
          unfolding formula_write_def Let_def Some option.case None formula_fields up
          by (simp add: mapped_unchanged [OF fn])
      next
        case fs: (Some r0)
        show ?thesis
          unfolding formula_write_def Let_def Some option.case None formula_fields up
          by (simp add: formulas_after_def fs)
      qed
    qed
  qed
qed

lemma save_formula_tables:
  assumes "shaped formulas_schema (formulas st)"
  shows "(formulas (snd (save_formula e req st)) = formulas st \<or>
          truthy_opt (get_field req ''key'') \<and>
          formulas (snd (save_formula e req st)) = formulas_after (now e) req (formulas st))
         \<and> problems (snd (save_formula e req st)) = problems st
         \<and> submitted_content (snd (save_formula e req st)) = submitted_content st"
proof (cases "truthy_opt (get_field req ''key'') \<and> truthy_opt (get_field req ''formula'')")
  case False
  then show ?thesis by (auto simp: save_formula_def)
next
  case True
  show ?thesis
  proof (cases "formula_lookup e req st")
    case (Inl err)
    with True show ?thesis by (simp add: save_formula_def)
  next
    case (Inr found)
    with True have "save_formula e req st = formula_write e req found st"
      by (simp add: save_formula_def)
    with formula_write_tables [OF assms, of req e found] True show ?thesis by auto
  qed
qed

lemma save_formula_keeps_ok:
  assumes "state_ok st" and "wf_json req"
  shows "state_ok (snd (save_formula e req st))"
proof -
  from assms(1) have sh: "shaped formulas_schema (formulas st)"
    and un: "unique_keys (formulas st)" and lf: "listable formula_view (formulas st)"
    and lp: "listable problem_view (problems st)"
    by (simp_all add: state_ok_def)
  note tabs = save_formula_tables [OF sh, of e req]
  from tabs have p: "problems (snd (save_formula e req st)) = problems st" by simp
  from tabs consider (same) "formulas (snd (save_formula e req st)) = formulas st"
    | (saved) "truthy_opt (get_field req ''key'')"
        "formulas (snd (save_formula e req st)) = formulas_after (now e) req (formulas st)"
    by blast
  then show ?thesis
  proof cases
    case same
    with assms(1) p show ?thesis by (simp add: state_ok_def)
  next
    case saved
    have k: "stored_text (get_field req ''key'') \<noteq> SqlNull"
      using saved(1) by (rule truthy_stored)
    show ?thesis
      using after_shaped [OF sh, of "now e" req] after_unique [OF un k, of "now e"]
        after_readable [OF lf assms(2), of "now e"] lp p saved(2)
      by (simp add: state_ok_def)
  qed
qed

lemma save_problem_keeps_ok:
  assumes "state_ok st" and "wf_json req" and "positional (get_field req ''text'')"
  shows "state_ok (snd (save_problem e req st))"
proof (cases "truthy_opt (get_field req ''text'') \<and> truthy_opt (get_field req ''answer'')")
  case False
  with assms(1) show ?thesis by (auto simp: save_problem_def)
next
  case True
  show ?thesis
  proof (cases "write_fault e")
    case (Some m)
    with True assms(1) show ?thesis
      by (simp add: save_problem_def bind_positional [OF assms(3)] sql_insert_fault state_ok_def)
  next
    case None
    have wf: "\<forall>v. get_field req ''formulaKeys'' = Some v \<longrightarrow> wf_json v"
      using assms(2) wf_field by blast
    let ?r = "problem_row (SqlInt (next_rowid (problems st))) (now e) req"
    have "parse_or_empty ?r ''formulaKeys'' =
            (if truthy_opt (get_field req ''formulaKeys'') then get_field req ''formulaKeys''
             else Some (JArr []))"
      by (rule parse_or_empty_stored [OF _ wf]) (simp add: problem_row_def)
    then have "parse_or_empty ?r ''formulaKeys'' \<noteq> None"
      by (simp only: some_or_empty not_False_eq_True)
    then have "problem_view ?r \<noteq> None" by (auto simp: problem_view_def)
    with assms(1) show ?thesis
      using save_problem_effect [of req e st] True None assms(3)
      by (simp add: state_ok_def problems_after_def listable_def)
  qed
qed

lemma call_gemini_tables:
  "formulas (snd (call_gemini generateContent e req st)) = formulas st \<and>
   problems (snd (call_gemini generateContent e req st)) = problems st"
  by (simp add: call_gemini_def forward_prompt_def Let_def split: upstream.split sum.split)

lemma get_formulas_tables:
  "formulas (snd (get_formulas e st)) = formulas st \<and>
   problems (snd (get_formulas e st)) = problems st"
  by (simp add: get_formulas_def split: sum.split option.split)

lemma get_problems_tables:
  "formulas (snd (get_problems e st)) = formulas st \<and>
   problems (snd (get_problems e st)) = problems st"
  by (simp add: get_problems_def split: sum.split option.split)

lemma reachable_ok: "reachable st \<Longrightarrow> state_ok st"
proof (induction rule: reachable.induct)
  case start
  show ?case by (rule init_state_ok)
next
  case (formula_saved st req e)
  then show ?case by (simp add: save_formula_keeps_ok)
next
  case (problem_saved st req e)
  then show ?case by (simp add: save_problem_keeps_ok)
next
  case (prompt_forwarded st generateContent e req)
  then show ?case by (simp add: state_ok_def call_gemini_tables)
next
  case (formulas_listed st e)
  then show ?case by (simp add: state_ok_def get_formulas_tables)
next
  case (problems_listed st e)
  then show ?case by (simp add: state_ok_def get_problems_tables)
qed

subsection \<open>Facts about the sample data\<close>

lemma sample_envs:
  "read_fault sample_env = None" "write_fault sample_env = None"
  "read_fault later_env = None" "write_fault later_env = None"
  "GEMINI_API_KEY sample_env = None"
  by (simp_all add: sample_env_def later_env_def)

lemma sample_formula_fields:
  "truthy_opt (get_field speed_formula ''key'')" "truthy_opt (get_field speed_formula ''formula'')"
  "truthy_opt (get_field speed_formula_bare ''key'')"
  "truthy_opt (get_field speed_formula_bare ''formula'')"
  "get_field speed_formula ''variables'' =
     Some (JArr [JObj [(''name'', JStr ''x''), (''meaning'', JStr ''speed'')] ])"
  "get_field speed_formula_bare ''verified_by_ai'' = None"
  "wf_json speed_formula" "wf_json speed_formula_bare"
  by (simp_all add: speed_formula_def speed_formula_bare_def truthy_opt_def)

lemma sample_rows_after_two_saves:
  "rows (formulas (snd (save_formula later_env speed_formula_bare
                          (snd (save_formula sample_env speed_formula init_state))))) =
     [ [(''id'', SqlInt 1), (''key'', SqlText ''speed''), (''category'', SqlNull),
       (''subject'', SqlNull), (''topic'', SqlNull), (''sub_topic'', SqlNull),
       (''formula'', SqlText ''v = s / t''), (''description'', SqlNull),
       (''variables'', SqlNull), (''connections'', SqlNull), (''examples'', SqlNull),
       (''verified_by_ai'', SqlNull), (''custom_user'', SqlNull),
       (''timestamp'', SqlText ''2025-06-02 08:30:00'')] ]"
  by code_simp

text \<open>
  Why the theorems on save-problem ask for a \<^verbatim>\<open>text\<close> that is bound by position: an array
  in that place is taken for the whole parameter list, so the answer is never bound.
\<close>

lemma array_text_is_parameter_list:
  "fst (save_problem sample_env
          (JObj [(''text'', JArr [JStr ''2+2?'']), (''answer'', JStr ''4'')]) init_state) =
     db_failure ''Failed to save problem.'' (NotNullFailed ''problems'' ''answer'')"
  by code_simp

section \<open>The claims\<close>



text \<open>
  Claim C2. When \<^verbatim>\<open>key\<close> or \<^verbatim>\<open>formula\<close> is absent or empty (or falsy in any other way) the
  handler answers 400 with \<^verbatim>\<open>{success:false, error}\<close> and returns the state it was given:
  no statement is run, whatever the environment.
\<close>

theorem save_formula_rejects_missing:
  assumes "\<not> truthy_opt (get_field req ''key'') \<or> \<not> truthy_opt (get_field req ''formula'')"
  shows "save_formula e req st =
           (\<lparr>status = 400,
             body = JObj [(''success'', JBool False),
                          (''error'', JStr ''Key and formula are required.'')]\<rparr>, st)"
  using assms by (auto simp: save_formula_def failure_def)

theorem save_formula_rejects_missing_witness:
  "\<not> truthy_opt (get_field (JObj [(''key'', JStr []), (''formula'', JStr ''v = d / t'')]) ''key'')
   \<and> save_formula sample_env (JObj [(''key'', JStr []), (''formula'', JStr ''v = d / t'')]) init_state =
       (\<lparr>status = 400,
         body = JObj [(''success'', JBool False),
                      (''error'', JStr ''Key and formula are required.'')]\<rparr>, init_state)"
proof -
  have h: "\<not> truthy_opt (get_field (JObj [(''key'', JStr []), (''formula'', JStr ''v = d / t'')]) ''key'')"
    by (simp add: truthy_opt_def)
  from h have h': "\<not> truthy_opt (get_field (JObj [(''key'', JStr []), (''formula'', JStr ''v = d / t'')]) ''key'')
    \<or> \<not> truthy_opt (get_field (JObj [(''key'', JStr []), (''formula'', JStr ''v = d / t'')])
                       ''formula'')"
    by (rule disjI1)
  from save_formula_rejects_missing [OF h', of sample_env init_state] h
  show ?thesis by iprover
qed

text \<open>
  Claim C3, as amended. A successful save-formula call answers with the row identifier:
  the id of the row found by the lookup on the update path, the newly generated id on
  the insert path. The body consists of \<^verbatim>\<open>success\<close>, \<^verbatim>\<open>message\<close> and \<^verbatim>\<open>id\<close> and
  nothing else.
\<close>

theorem save_formula_response_id:
  assumes "shaped formulas_schema (formulas st)"
      and "truthy_opt (get_field req ''key'')" and "truthy_opt (get_field req ''formula'')"
      and "read_fault e = None" and "write_fault e = None"
  shows "fst (save_formula e req st) =
           \<lparr>status = 200,
            body = JObj [(''success'', JBool True),
                         (''message'', JStr ''Formula saved successfully.''),
                         (''id'',
                          case find (\<lambda>r. col r ''key'' = stored_text (get_field req ''key''))
                                 (rows (formulas st)) of
                            Some r \<Rightarrow> js_of_sql (col r ''id'')
                          | None \<Rightarrow> JNum (next_rowid (formulas st)))]\<rparr>"
proof -
  have eq: "has_key req = (\<lambda>r. col r ''key'' = stored_text (get_field req ''key''))"
    by (simp add: has_key_def fun_eq_iff)
  show ?thesis
    unfolding save_formula_effect(1) [OF assms] saved_def formula_ident_def eq
    by (simp add: js_of_sql_def split: option.split)
qed

theorem save_formula_response_id_witness:
  "shaped formulas_schema (formulas init_state)
   \<and> truthy_opt (get_field speed_formula ''key'') \<and> truthy_opt (get_field speed_formula ''formula'')
   \<and> read_fault sample_env = None \<and> write_fault sample_env = None
   \<and> fst (save_formula sample_env speed_formula init_state) =
       \<lparr>status = 200,
        body = JObj [(''success'', JBool True),
                     (''message'', JStr ''Formula saved successfully.''),
                     (''id'', JNum 1)]\<rparr>"
proof -
  have n: "next_rowid (formulas init_state) = 1"
    by (simp add: next_rowid_def max_rowid_def init_state_def empty_table_def)
  from save_formula_response_id [OF init_formulas_ok(1) sample_formula_fields(1,2) sample_envs(1,2)]
  show ?thesis
    using init_formulas_ok(1) sample_formula_fields(1,2) sample_envs(1,2)
    by (simp add: init_tables n)
qed

text \<open>
  Claim C3, as stated, also promises a flag that tells which path was taken. There is
  none: saving the same formula twice into the empty store takes the insert path and
  then the update path, and the two responses are equal.
\<close>

theorem save_formula_no_path_flag:
  "formula_lookup sample_env speed_formula init_state = Inr None
   \<and> formula_lookup sample_env speed_formula
        (snd (save_formula sample_env speed_formula init_state)) = Inr (Some [(''id'', SqlInt 1)])
   \<and> fst (save_formula sample_env speed_formula init_state) =
       fst (save_formula sample_env speed_formula
             (snd (save_formula sample_env speed_formula init_state)))"
  by code_simp

text \<open>
  Claim C4. Any number of valid save-problem calls with the same \<^verbatim>\<open>text\<close> and
  \<^verbatim>\<open>answer\<close> append that many rows: the rows present before stay as they are, and the
  new rows carry pairwise different ids, each larger than every id present before. The
  \<^verbatim>\<open>text\<close> is a string (or a number or boolean): it is bound by position.
\<close>

theorem save_problem_appends:
  assumes "truthy_opt tx" and "truthy_opt an"
      and "positional tx"
      and "list_all (\<lambda>(e, req). write_fault e = None \<and> get_field req ''text'' = tx \<and>
                      get_field req ''answer'' = an) calls"
  shows "\<exists>added. rows (problems (run_saves calls st)) = rows (problems st) @ added
           \<and> length added = length calls
           \<and> distinct (map row_id added)
           \<and> list_all (\<lambda>r. col r ''id'' = SqlInt (row_id r)
                          \<and> col r ''text'' = stored_text tx
                          \<and> col r ''answer'' = stored_text an
                          \<and> list_all (\<lambda>r0. row_id r0 < row_id r) (rows (problems st))) added"
proof -
  from run_saves_rows [OF assms, of st] obtain added where
    a: "rows (problems (run_saves calls st)) = rows (problems st) @ added"
      "length added = length calls" "distinct (map row_id added)"
      "list_all (\<lambda>r. col r ''id'' = SqlInt (row_id r)
                          \<and> next_rowid (problems st) \<le> row_id r
                          \<and> col r ''text'' = stored_text tx
                          \<and> col r ''answer'' = stored_text an) added"
    by blast
  have "row_id r0 < row_id r" if "r0 \<in> set (rows (problems st))" "next_rowid (problems st) \<le> row_id r"
    for r0 r
    using row_id_lt_next [OF that(1)] that(2) by simp
  with a(4) have "list_all (\<lambda>r. col r ''id'' = SqlInt (row_id r)
                          \<and> col r ''text'' = stored_text tx
                          \<and> col r ''answer'' = stored_text an
                          \<and> list_all (\<lambda>r0. row_id r0 < row_id r) (rows (problems st))) added"
    by (auto simp: list_all_iff)
  with a(1-3) show ?thesis by blast
qed

theorem save_problem_appends_witness:
  "truthy_opt (Some (JStr ''2+2?'')) \<and> truthy_opt (Some (JStr ''4''))
   \<and> positional (Some (JStr ''2+2?''))
   \<and> list_all (\<lambda>(e, req). write_fault e = None \<and> get_field req ''text'' = Some (JStr ''2+2?'') \<and>
                  get_field req ''answer'' = Some (JStr ''4''))
        [(sample_env, sum_problem), (later_env, sum_problem), (later_env, sum_problem)]
   \<and> (\<exists>added.
         rows (problems (run_saves
                [(sample_env, sum_problem), (later_env, sum_problem), (later_env, sum_problem)]
                init_state)) = added
       \<and> length added = 3
       \<and> distinct (map row_id added)
       \<and> list_all (\<lambda>r. col r ''text'' = SqlText ''2+2?'' \<and> col r ''answer'' = SqlText ''4'') added)"
proof -
  have h1: "truthy_opt (Some (JStr ''2+2?''))" and h2: "truthy_opt (Some (JStr ''4''))"
    and hp: "positional (Some (JStr ''2+2?''))"
    by (simp_all add: truthy_opt_def positional_def)
  have h3: "list_all (\<lambda>(e, req). write_fault e = None \<and>
                  get_field req ''text'' = Some (JStr ''2+2?'') \<and>
                  get_field req ''answer'' = Some (JStr ''4''))
        [(sample_env, sum_problem), (later_env, sum_problem), (later_env, sum_problem)]"
    by (simp add: sample_envs sum_problem_def)
  have s: "stored_text (Some (JStr ''2+2?'')) = SqlText ''2+2?''"
    "stored_text (Some (JStr ''4'')) = SqlText ''4''"
    by (simp_all add: stored_text_def bind_param_def apply_affinity_def)
  from save_problem_appends [OF h1 h2 hp h3, of init_state] obtain added where
    a: "rows (problems (run_saves
          [(sample_env, sum_problem), (later_env, sum_problem), (later_env, sum_problem)]
          init_state)) = rows (problems init_state) @ added"
      "length added =
         length [(sample_env, sum_problem), (later_env, sum_problem), (later_env, sum_problem)]"
      "distinct (map row_id added)"
      "list_all (\<lambda>r. col r ''id'' = SqlInt (row_id r)
                     \<and> col r ''text'' = stored_text (Some (JStr ''2+2?''))
                     \<and> col r ''answer'' = stored_text (Some (JStr ''4''))
                     \<and> list_all (\<lambda>r0. row_id r0 < row_id r) (rows (problems init_state))) added"
    by iprover
  from a(4) have "list_all (\<lambda>r. col r ''text'' = SqlText ''2+2?'' \<and> col r ''answer'' = SqlText ''4'') added"
    by (simp add: s list_all_iff)
  with a(1-3) have "\<exists>added.
         rows (problems (run_saves
                [(sample_env, sum_problem), (later_env, sum_problem), (later_env, sum_problem)]
                init_state)) = added
       \<and> length added = 3
       \<and> distinct (map row_id added)
       \<and> list_all (\<lambda>r. col r ''text'' = SqlText ''2+2?'' \<and> col r ''answer'' = SqlText ''4'') added"
    by (intro exI [of _ added]) (simp add: init_tables)
  with h1 h2 hp h3 show ?thesis by iprover
qed

text \<open>
  Claim C5. A formula saved with an array in \<^verbatim>\<open>variables\<close> is stored with the
  serialised text, and the listing that follows has exactly one entry for its key, whose
  \<^verbatim>\<open>variables\<close> field is that array again, as a structured JSON value.
\<close>

theorem formula_variables_roundtrip:
  assumes "shaped formulas_schema (formulas st)" and "unique_keys (formulas st)"
      and "listable formula_view (formulas st)"
      and "wf_json req"
      and "truthy_opt (get_field req ''key'')" and "truthy_opt (get_field req ''formula'')"
      and "get_field req ''variables'' = Some (JArr vs)"
      and "read_fault e = None" and "write_fault e = None" and "read_fault e' = None"
  shows "\<exists>views.
           fst (get_formulas e' (snd (save_formula e req st))) =
             Some \<lparr>status = 200,
                   body = JObj [(''success'', JBool True), (''formulas'', JArr views)]\<rparr>
         \<and> map (\<lambda>v. get_field v ''variables'')
               (filter (\<lambda>v. get_field v ''key'' =
                             Some (js_of_sql (stored_text (get_field req ''key'')))) views)
             = [Some (JArr vs)]
         \<and> map (\<lambda>r. col r ''variables'')
               (filter (\<lambda>r. col r ''key'' = stored_text (get_field req ''key''))
                  (rows (formulas (snd (save_formula e req st)))))
             = [SqlText (JSON_stringify (JArr vs))]"
proof -
  let ?r1 = "formula_row (formula_ident req (formulas st)) (now e) req"
  from formula_listing [OF assms(1-6) assms(8-10)] obtain views v0 where
    l: "fst (get_formulas e' (snd (save_formula e req st))) =
             Some \<lparr>status = 200,
                   body = JObj [(''success'', JBool True), (''formulas'', JArr views)]\<rparr>"
      "filter (\<lambda>v. get_field v ''key'' = Some (js_of_sql (stored_text (get_field req ''key''))))
              views = [v0]"
      "formula_view ?r1 = Some v0"
      "filter (\<lambda>r. col r ''key'' = stored_text (get_field req ''key''))
              (rows (formulas (snd (save_formula e req st)))) = [?r1]"
    by blast
  have "get_field v0 ''variables'' = Some (JArr vs)"
    using formula_view_fields(1) [OF l(3)] formula_row_composites(1) [OF assms(4)] assms(7)
    by (simp add: truthy_opt_def)
  moreover have "col ?r1 ''variables'' = SqlText (JSON_stringify (JArr vs))"
    using assms(7)
    by (simp add: formula_row_def col_def stringify_or_null_def stored_text_def bind_param_def
        apply_affinity_def)
  ultimately show ?thesis using l by (intro exI [of _ views]) simp
qed

theorem formula_variables_roundtrip_witness:
  "shaped formulas_schema (formulas init_state) \<and> unique_keys (formulas init_state)
   \<and> listable formula_view (formulas init_state)
   \<and> wf_json speed_formula
   \<and> truthy_opt (get_field speed_formula ''key'') \<and> truthy_opt (get_field speed_formula ''formula'')
   \<and> get_field speed_formula ''variables'' =
       Some (JArr [JObj [(''name'', JStr ''x''), (''meaning'', JStr ''speed'')] ])
   \<and> read_fault sample_env = None \<and> write_fault sample_env = None \<and> read_fault later_env = None
   \<and> (\<exists>views.
         fst (get_formulas later_env (snd (save_formula sample_env speed_formula init_state))) =
           Some \<lparr>status = 200,
                 body = JObj [(''success'', JBool True), (''formulas'', JArr views)]\<rparr>
       \<and> map (\<lambda>v. get_field v ''variables'')
             (filter (\<lambda>v. get_field v ''key'' = Some (JStr ''speed'')) views)
           = [Some (JArr [JObj [(''name'', JStr ''x''), (''meaning'', JStr ''speed'')] ])])"
proof -
  have k: "js_of_sql (stored_text (get_field speed_formula ''key'')) = JStr ''speed''"
    by (simp add: speed_formula_def stored_text_def bind_param_def apply_affinity_def js_of_sql_def)
  from formula_variables_roundtrip [OF init_formulas_ok sample_formula_fields(7)
      sample_formula_fields(1,2,5) sample_envs(1,2,3)]
  have "\<exists>views.
         fst (get_formulas later_env (snd (save_formula sample_env speed_formula init_state))) =
           Some \<lparr>status = 200,
                 body = JObj [(''success'', JBool True), (''formulas'', JArr views)]\<rparr>
       \<and> map (\<lambda>v. get_field v ''variables'')
             (filter (\<lambda>v. get_field v ''key'' = Some (JStr ''speed'')) views)
           = [Some (JArr [JObj [(''name'', JStr ''x''), (''meaning'', JStr ''speed'')] ])]"
    unfolding k by iprover
  then show ?thesis
    using init_formulas_ok sample_formula_fields(1-8) sample_envs(1-4) by iprover
qed

text \<open>
  Claim C6. A problem saved without \<^verbatim>\<open>formulaKeys\<close> (its \<^verbatim>\<open>text\<close> bound by position) is
  stored with \<^verbatim>\<open>NULL\<close> in that column, and the listing that follows has exactly one
  entry with the id the save reported, whose \<^verbatim>\<open>formulaKeys\<close> field is the empty array.
  (For the list-valued fields of a formula the same is lemma
  \<open>formula_composites_listing\<close>.)
\<close>

theorem problem_without_formulaKeys_lists_empty:
  assumes "listable problem_view (problems st)"
      and "truthy_opt (get_field req ''text'')" and "truthy_opt (get_field req ''answer'')"
      and "get_field req ''formulaKeys'' = None"
      and "write_fault e = None" and "read_fault e' = None"
      and "positional (get_field req ''text'')"
  shows "\<exists>views.
           fst (save_problem e req st) =
             saved ''Problem saved successfully.'' (JNum (next_rowid (problems st)))
         \<and> map (\<lambda>r. col r ''formulaKeys'')
               (filter (\<lambda>r. col r ''id'' = SqlInt (next_rowid (problems st)))
                  (rows (problems (snd (save_problem e req st))))) = [SqlNull]
         \<and> fst (get_problems e' (snd (save_problem e req st))) =
             Some \<lparr>status = 200,
                   body = JObj [(''success'', JBool True), (''problems'', JArr views)]\<rparr>
         \<and> map (\<lambda>v. get_field v ''formulaKeys'')
               (filter (\<lambda>v. get_field v ''id'' = Some (JNum (next_rowid (problems st)))) views)
             = [Some (JArr [])]"
proof -
  let ?st1 = "snd (save_problem e req st)"
  let ?rid = "next_rowid (problems st)"
  let ?r1 = "problem_row (SqlInt ?rid) (now e) req"
  let ?le = "\<lambda>a b. sql_le (col b ''timestamp'') (col a ''timestamp'')"
  note eff = save_problem_effect [OF assms(2,3,5,7), of st]
  have t1: "problems ?st1 = problems_after (now e) req (problems st)" by (simp add: eff)
  have one: "filter (\<lambda>r. col r ''id'' = SqlInt ?rid) (rows (problems ?st1)) = [?r1]"
    by (simp add: t1 filter_new_problem)
  have null: "col ?r1 ''formulaKeys'' = SqlNull"
    using assms(4)
    by (simp add: problem_row_def col_def stringify_or_null_def stored_text_def bind_param_def
        apply_affinity_def)
  have "list_all (\<lambda>r. problem_view r \<noteq> None) (rows (problems ?st1))"
    using assms(1) problem_row_view [OF assms(4), of "SqlInt ?rid" "now e"]
    by (auto simp: t1 problems_after_def listable_def)
  then have "list_all (\<lambda>r. problem_view r \<noteq> None) (order_by ?le (rows (problems ?st1)))"
    by (simp add: list_all_iff set_order_by)
  from map_all_total [OF this] obtain views where
    views: "map_all problem_view (order_by ?le (rows (problems ?st1))) = Some views" by blast
  have rel: "(col r ''id'' = SqlInt ?rid) = (get_field v ''id'' = Some (JNum ?rid))"
    if "problem_view r = Some v" for r v
    using problem_view_fields(2) [OF that, of "''id''"]
      view_field_eq [of "SqlInt ?rid" r "''id''"]
    by (simp add: js_of_sql_def)
  have "\<exists>v0. filter (\<lambda>v. get_field v ''id'' = Some (JNum ?rid)) views = [v0]
           \<and> problem_view ?r1 = Some v0"
  proof (rule views_of_single [where P = "\<lambda>r. col r ''id'' = SqlInt ?rid"])
    show "map_all problem_view (order_by ?le (rows (problems ?st1))) = Some views"
      by (rule views)
    show "(col r ''id'' = SqlInt ?rid) = (get_field v ''id'' = Some (JNum ?rid))"
      if "problem_view r = Some v" for r v
      using that by (rule rel)
    show "filter (\<lambda>r. col r ''id'' = SqlInt ?rid) (order_by ?le (rows (problems ?st1))) = [?r1]"
      by (rule filter_order_by_single [OF one])
  qed
  then obtain v0 where v0: "filter (\<lambda>v. get_field v ''id'' = Some (JNum ?rid)) views = [v0]"
    and pv: "problem_view ?r1 = Some v0" by blast
  have "map_of ?r1 ''formulaKeys'' = Some SqlNull"
    using null by (simp add: problem_row_def col_def)
  then have "get_field v0 ''formulaKeys'' = Some (JArr [])"
    using problem_view_fields(1) [OF pv] by (simp add: parse_or_empty_null)
  with v0 one null eff get_problems_ok [OF assms(6) views] show ?thesis
    by (intro exI [of _ views]) simp
qed

theorem problem_without_formulaKeys_lists_empty_witness:
  "listable problem_view (problems init_state)
   \<and> truthy_opt (get_field sum_problem ''text'') \<and> truthy_opt (get_field sum_problem ''answer'')
   \<and> get_field sum_problem ''formulaKeys'' = None
   \<and> write_fault sample_env = None \<and> read_fault later_env = None
   \<and> positional (get_field sum_problem ''text'')
   \<and> (\<exists>views.
         fst (save_problem sample_env sum_problem init_state) =
           saved ''Problem saved successfully.'' (JNum 1)
       \<and> fst (get_problems later_env (snd (save_problem sample_env sum_problem init_state))) =
           Some \<lparr>status = 200,
                 body = JObj [(''success'', JBool True), (''problems'', JArr views)]\<rparr>
       \<and> map (\<lambda>v. get_field v ''formulaKeys'')
             (filter (\<lambda>v. get_field v ''id'' = Some (JNum 1)) views)
           = [Some (JArr [])])"
proof -
  have h1: "listable problem_view (problems init_state)"
    by (simp add: listable_def init_tables)
  have h2: "truthy_opt (get_field sum_problem ''text'')"
    and h3: "truthy_opt (get_field sum_problem ''answer'')"
    and h4: "get_field sum_problem ''formulaKeys'' = None"
    and h5: "positional (get_field sum_problem ''text'')"
    by (simp_all add: sum_problem_def truthy_opt_def positional_def)
  have n: "next_rowid (problems init_state) = 1"
    by (simp add: next_rowid_def max_rowid_def init_state_def empty_table_def)
  from problem_without_formulaKeys_lists_empty [OF h1 h2 h3 h4 sample_envs(2) sample_envs(3) h5]
  have "\<exists>views.
         fst (save_problem sample_env sum_problem init_state) =
           saved ''Problem saved successfully.'' (JNum 1)
       \<and> fst (get_problems later_env (snd (save_problem sample_env sum_problem init_state))) =
           Some \<lparr>status = 200,
                 body = JObj [(''success'', JBool True), (''problems'', JArr views)]\<rparr>
       \<and> map (\<lambda>v. get_field v ''formulaKeys'')
             (filter (\<lambda>v. get_field v ''id'' = Some (JNum 1)) views)
           = [Some (JArr [])]"
    unfolding n by iprover
  with h1 h2 h3 h4 h5 sample_envs(2,3) show ?thesis by iprover
qed

text \<open>
  Claim C7. With no credential in the body and none in the process environment the
  handler answers 400 with the missing-key message and returns the state it was given:
  the text service is not consulted and \<^verbatim>\<open>submitted_content\<close> gains no row. This holds
  for both copies of the handler (the second never looks at the body).
\<close>

theorem call_gemini_missing_key:
  assumes "\<not> truthy_opt (get_field req ''apiKey'')"
      and "GEMINI_API_KEY e = None \<or> GEMINI_API_KEY e = Some []"
  shows "call_gemini generateContent e req st =
           (\<lparr>status = 400,
             body = JObj [(''success'', JBool False),
                          (''error'', JStr ''Gemini API key is missing. Please ensure it's provided.'')]\<rparr>,
            st)
         \<and> call_gemini_rev2 generateContent e req st =
           (\<lparr>status = 400,
             body = JObj [(''success'', JBool False),
                          (''error'', JStr ''Gemini API key is missing. Please ensure it's provided in your .env file.'')]\<rparr>,
            st)"
proof -
  from assms(2) have k: "\<not> truthy_opt (map_option JStr (GEMINI_API_KEY e))"
    by (simp add: env_key_falsy)
  with assms(1) have "\<not> truthy_opt (js_or (get_field req ''apiKey'') (map_option JStr (GEMINI_API_KEY e)))"
    by (simp add: js_or_def)
  with k show ?thesis
    by (simp add: call_gemini_def call_gemini_rev2_def failure_def Let_def)
qed

theorem call_gemini_missing_key_witness:
  "\<not> truthy_opt (get_field sum_prompt ''apiKey'')
   \<and> GEMINI_API_KEY sample_env = None
   \<and> call_gemini answer_four sample_env sum_prompt init_state =
       (\<lparr>status = 400,
         body = JObj [(''success'', JBool False),
                      (''error'', JStr ''Gemini API key is missing. Please ensure it's provided.'')]\<rparr>,
        init_state)
   \<and> submitted_content (snd (call_gemini answer_four sample_env sum_prompt init_state)) =
       submitted_content init_state"
proof -
  have h1: "\<not> truthy_opt (get_field sum_prompt ''apiKey'')"
    by (simp add: sum_prompt_def truthy_opt_def)
  have h2: "GEMINI_API_KEY sample_env = None \<or> GEMINI_API_KEY sample_env = Some []"
    by (simp add: sample_envs)
  from call_gemini_missing_key [OF h1 h2, of answer_four init_state] h1 sample_envs(5)
  show ?thesis by simp
qed

text \<open>
  Claim C8. When the text service produces the text \<open>T\<close>, the response is
  \<^verbatim>\<open>{success:true, data:T}\<close> in every environment and every state. The insert that
  follows decides only the state: a failure of the driver or a violated \<^verbatim>\<open>NOT NULL\<close>
  leaves the tables as they were and prints the error; otherwise one row is added.
\<close>

theorem call_gemini_fire_and_forget:
  assumes "key = js_or (get_field req ''apiKey'') (map_option JStr (GEMINI_API_KEY e))"
      and "truthy_opt key"
      and "generateContent key (get_field req ''prompt'') (generation_config (get_field req ''schema''))
             = Generated T"
  shows "fst (call_gemini generateContent e req st) =
           \<lparr>status = 200, body = JObj [(''success'', JBool True), (''data'', JStr T)]\<rparr>
         \<and> snd (call_gemini generateContent e req st) =
             (case write_fault e of
                Some m \<Rightarrow>
                  st\<lparr>console := console st @ [LogError ''Error saving AI interaction:'' m]\<rparr>
              | None \<Rightarrow>
                  if bind_param (get_field req ''prompt'') = SqlNull
                  then st\<lparr>console := console st @
                         [LogError ''Error saving AI interaction:''
                            ''SQLITE_CONSTRAINT: NOT NULL constraint failed: submitted_content.prompt'']\<rparr>
                  else st\<lparr>submitted_content :=
                            (submitted_content st)
                              \<lparr>rows := rows (submitted_content st) @
                                 [ [(''id'', SqlInt (next_rowid (submitted_content st))),
                                   (''prompt'', stored_text (get_field req ''prompt'')),
                                   (''schema'', stored_text (stringify_or_null (get_field req ''schema''))),
                                   (''ai_response'', SqlText T),
                                   (''timestamp'', apply_affinity NUMERIC (SqlText (now e)))] ],
                               seq := next_rowid (submitted_content st)\<rparr>,
                          console := console st @
                            [Log (''AI interaction saved with ID: '' @
                                  show_int (next_rowid (submitted_content st)))]\<rparr>)"
proof -
  have cg: "call_gemini generateContent e req st =
        forward_prompt generateContent e key (get_field req ''prompt'') (get_field req ''schema'') st"
    using assms(1,2) by (simp add: call_gemini_def Let_def)
  show ?thesis
  proof (cases "write_fault e")
    case None
    show ?thesis
      unfolding cg forward_prompt_def assms(3) None insert_submitted_content
      by (simp add: stored_text_def bind_param_def apply_affinity_def)
  next
    case (Some m)
    show ?thesis
      unfolding cg forward_prompt_def assms(3) Some sql_insert_fault
      by simp
  qed
qed

theorem call_gemini_fire_and_forget_witness:
  "Some (JStr ''server-key'') =
     js_or (get_field sum_prompt ''apiKey'') (map_option JStr (GEMINI_API_KEY keyed_env))
   \<and> truthy_opt (Some (JStr ''server-key''))
   \<and> answer_four (Some (JStr ''server-key'')) (get_field sum_prompt ''prompt'')
        (generation_config (get_field sum_prompt ''schema'')) = Generated ''4''
   \<and> call_gemini answer_four keyed_env sum_prompt init_state =
       (\<lparr>status = 200, body = JObj [(''success'', JBool True), (''data'', JStr ''4'')]\<rparr>,
        init_state\<lparr>console := [LogError ''Error saving AI interaction:''
                                  ''SQLITE_IOERR: disk I/O error'']\<rparr>)"
proof -
  have h1: "Some (JStr ''server-key'') =
     js_or (get_field sum_prompt ''apiKey'') (map_option JStr (GEMINI_API_KEY keyed_env))"
    by (simp add: js_or_def sum_prompt_def keyed_env_def truthy_opt_def)
  have h2: "truthy_opt (Some (JStr ''server-key''))" by (simp add: truthy_opt_def)
  have h3: "answer_four (Some (JStr ''server-key'')) (get_field sum_prompt ''prompt'')
        (generation_config (get_field sum_prompt ''schema'')) = Generated ''4''"
    by (simp add: answer_four_def)
  have w: "write_fault keyed_env = Some ''SQLITE_IOERR: disk I/O error''"
    by (simp add: keyed_env_def)
  have c: "console init_state = []" by (simp add: init_state_def)
  from call_gemini_fire_and_forget [where generateContent = answer_four and e = keyed_env
      and req = sum_prompt and key = "Some (JStr ''server-key'')" and T = "''4''"
      and st = init_state, OF h1 h2 h3]
  have "call_gemini answer_four keyed_env sum_prompt init_state =
       (\<lparr>status = 200, body = JObj [(''success'', JBool True), (''data'', JStr ''4'')]\<rparr>,
        init_state\<lparr>console := [LogError ''Error saving AI interaction:''
                                  ''SQLITE_IOERR: disk I/O error'']\<rparr>)"
    by (simp add: w c prod_eq_iff)
  with h1 h2 h3 show ?thesis by blast
qed

text \<open>
  Claim C9. When the body holds a truthy \<^verbatim>\<open>apiKey\<close>, the answer is the outcome of the
  call \<open>generateContent\<close> made with that very value as the credential (200 with the
  generated text, or 500 with the message of the failure), whatever the process
  environment holds, and such a request is never answered with 400. A request is answered
  with 400 exactly when the body field is falsy and the environment credential is unset or
  empty. In the example the text service accepts the caller's key only, and the
  environment holds another one.
\<close>

theorem call_gemini_prefers_request_key:
  assumes "truthy_opt (get_field req ''apiKey'')"
  shows "fst (call_gemini generateContent e req st) =
           (case generateContent (get_field req ''apiKey'') (get_field req ''prompt'')
                   (generation_config (get_field req ''schema'')) of
              Generated text \<Rightarrow>
                \<lparr>status = 200,
                 body = JObj [(''success'', JBool True), (''data'', JStr text)]\<rparr>
            | Failed msg \<Rightarrow>
                \<lparr>status = 500,
                 body = JObj [(''success'', JBool False), (''error'', JStr msg)]\<rparr>)
         \<and> call_gemini generateContent (e\<lparr>GEMINI_API_KEY := k\<rparr>) req st =
             call_gemini generateContent e req st
         \<and> status (fst (call_gemini generateContent e req st)) \<noteq> 400
         \<and> ((status (fst (call_gemini generateContent e' req' st')) = 400) =
              (\<not> truthy_opt (get_field req' ''apiKey'') \<and>
               (GEMINI_API_KEY e' = None \<or> GEMINI_API_KEY e' = Some [])))
         \<and> call_gemini generateContent e req st =
             forward_prompt generateContent e (get_field req ''apiKey'')
               (get_field req ''prompt'') (get_field req ''schema'') st"
proof -
  have n: "status (fst (forward_prompt generateContent x k p s y)) \<noteq> 400" for x k p s y
    using forward_prompt_status [of generateContent x k p s y] by auto
  have a: "call_gemini generateContent x req st =
           forward_prompt generateContent x (get_field req ''apiKey'')
             (get_field req ''prompt'') (get_field req ''schema'') st" for x
    using assms by (simp add: call_gemini_def Let_def js_or_def)
  have b: "forward_prompt generateContent (e\<lparr>GEMINI_API_KEY := k\<rparr>) kk p s st =
           forward_prompt generateContent e kk p s st" for kk p s
    by (simp add: forward_prompt_def split: upstream.split)
  have c: "(status (fst (call_gemini generateContent e' req' st')) = 400) =
              (\<not> truthy_opt (get_field req' ''apiKey'') \<and>
               (GEMINI_API_KEY e' = None \<or> GEMINI_API_KEY e' = Some []))"
    using n by (auto simp: call_gemini_def Let_def js_or_def failure_def env_key_falsy [symmetric])
  have d: "fst (forward_prompt generateContent e kk p s st) =
           (case generateContent kk p (generation_config s) of
              Generated text \<Rightarrow>
                \<lparr>status = 200,
                 body = JObj [(''success'', JBool True), (''data'', JStr text)]\<rparr>
            | Failed msg \<Rightarrow>
                \<lparr>status = 500,
                 body = JObj [(''success'', JBool False), (''error'', JStr msg)]\<rparr>)" for kk p s
    by (simp add: forward_prompt_def failure_def split: upstream.split)
  have a1: "fst (call_gemini generateContent e req st) =
           (case generateContent (get_field req ''apiKey'') (get_field req ''prompt'')
                   (generation_config (get_field req ''schema'')) of
              Generated text \<Rightarrow>
                \<lparr>status = 200,
                 body = JObj [(''success'', JBool True), (''data'', JStr text)]\<rparr>
            | Failed msg \<Rightarrow>
                \<lparr>status = 500,
                 body = JObj [(''success'', JBool False), (''error'', JStr msg)]\<rparr>)"
    unfolding a d ..
  have a2: "call_gemini generateContent (e\<lparr>GEMINI_API_KEY := k\<rparr>) req st =
             call_gemini generateContent e req st"
    unfolding a b ..
  have a3: "status (fst (call_gemini generateContent e req st)) \<noteq> 400"
    unfolding a by (rule n)
  from a1 a2 a3 c a [of e] show ?thesis by iprover
qed

theorem call_gemini_prefers_request_key_witness:
  "truthy_opt (get_field sum_prompt_with_key ''apiKey'')
   \<and> GEMINI_API_KEY keyed_env = Some ''server-key''
   \<and> fst (call_gemini caller_key_only keyed_env sum_prompt_with_key init_state) =
       \<lparr>status = 200, body = JObj [(''success'', JBool True), (''data'', JStr ''4'')]\<rparr>
   \<and> status (fst (call_gemini caller_key_only sample_env sum_prompt init_state)) = 400"
proof -
  have h: "truthy_opt (get_field sum_prompt_with_key ''apiKey'')"
    by (simp add: sum_prompt_with_key_def truthy_opt_def)
  have f: "get_field sum_prompt_with_key ''apiKey'' = Some (JStr ''caller-key'')"
    "get_field sum_prompt_with_key ''prompt'' = Some (JStr ''2+2'')"
    "get_field sum_prompt_with_key ''schema'' = None"
    by (simp_all add: sum_prompt_with_key_def)
  have g: "\<not> truthy_opt (get_field sum_prompt ''apiKey'')" "GEMINI_API_KEY sample_env = None"
    by (simp_all add: sum_prompt_def sample_env_def truthy_opt_def)
  have k: "GEMINI_API_KEY keyed_env = Some ''server-key''" by (simp add: keyed_env_def)
  note t = call_gemini_prefers_request_key [where generateContent = caller_key_only
      and e = keyed_env and req = sum_prompt_with_key and st = init_state and k = None
      and e' = sample_env and req' = sum_prompt and st' = init_state, OF h]
  from t [THEN conjunct1]
  have "fst (call_gemini caller_key_only keyed_env sum_prompt_with_key init_state) =
       \<lparr>status = 200, body = JObj [(''success'', JBool True), (''data'', JStr ''4'')]\<rparr>"
    by (simp add: f caller_key_only_def)
  moreover from t [THEN conjunct2, THEN conjunct2, THEN conjunct2, THEN conjunct1] g have
    "status (fst (call_gemini caller_key_only sample_env sum_prompt init_state)) = 400"
    by simp
  ultimately show ?thesis using h k by simp
qed

text \<open>
  Claim C10. A formula saved without \<^verbatim>\<open>verified_by_ai\<close> has \<^verbatim>\<open>NULL\<close> in that column,
  not the declared default 0, on the insert path and on the update path alike; the
  listing that follows shows \<^verbatim>\<open>null\<close> for it.
\<close>

theorem formula_verified_by_ai_null:
  assumes "shaped formulas_schema (formulas st)" and "unique_keys (formulas st)"
      and "listable formula_view (formulas st)"
      and "wf_json req"
      and "truthy_opt (get_field req ''key'')" and "truthy_opt (get_field req ''formula'')"
      and "get_field req ''verified_by_ai'' = None"
      and "read_fault e = None" and "write_fault e = None" and "read_fault e' = None"
  shows "\<exists>views.
           map (\<lambda>r. col r ''verified_by_ai'')
             (filter (\<lambda>r. col r ''key'' = stored_text (get_field req ''key''))
                (rows (formulas (snd (save_formula e req st)))))
             = [SqlNull]
         \<and> map cdefault (filter (\<lambda>c. cname c = ''verified_by_ai'') (columns formulas_schema))
             = [DefaultValue (SqlInt 0)]
         \<and> fst (get_formulas e' (snd (save_formula e req st))) =
             Some \<lparr>status = 200,
                   body = JObj [(''success'', JBool True), (''formulas'', JArr views)]\<rparr>
         \<and> map (\<lambda>v. get_field v ''verified_by_ai'')
               (filter (\<lambda>v. get_field v ''key'' =
                             Some (js_of_sql (stored_text (get_field req ''key'')))) views)
             = [Some JNull]"
proof -
  let ?r1 = "formula_row (formula_ident req (formulas st)) (now e) req"
  from formula_listing [OF assms(1-6) assms(8-10)] obtain views v0 where
    l: "fst (get_formulas e' (snd (save_formula e req st))) =
             Some \<lparr>status = 200,
                   body = JObj [(''success'', JBool True), (''formulas'', JArr views)]\<rparr>"
      "filter (\<lambda>v. get_field v ''key'' = Some (js_of_sql (stored_text (get_field req ''key''))))
              views = [v0]"
      "formula_view ?r1 = Some v0"
      "filter (\<lambda>r. col r ''key'' = stored_text (get_field req ''key''))
              (rows (formulas (snd (save_formula e req st)))) = [?r1]"
    by blast
  have m: "map_of ?r1 ''verified_by_ai'' = Some SqlNull"
    using assms(7) by (simp add: formula_row_def bind_param_def apply_affinity_def)
  then have "get_field v0 ''verified_by_ai'' = Some JNull"
    using formula_view_fields(4) [OF l(3), of "''verified_by_ai''"]
    by (simp add: js_of_sql_def)
  moreover have "col ?r1 ''verified_by_ai'' = SqlNull"
    using m by (simp add: col_def)
  moreover have "map cdefault (filter (\<lambda>c. cname c = ''verified_by_ai'') (columns formulas_schema))
             = [DefaultValue (SqlInt 0)]"
    by (simp add: schema_defs)
  ultimately show ?thesis using l by (intro exI [of _ views]) simp
qed

theorem formula_verified_by_ai_null_witness:
  "shaped formulas_schema (formulas init_state) \<and> unique_keys (formulas init_state)
   \<and> listable formula_view (formulas init_state)
   \<and> wf_json speed_formula_bare
   \<and> truthy_opt (get_field speed_formula_bare ''key'')
   \<and> truthy_opt (get_field speed_formula_bare ''formula'')
   \<and> get_field speed_formula_bare ''verified_by_ai'' = None
   \<and> read_fault sample_env = None \<and> write_fault sample_env = None \<and> read_fault later_env = None
   \<and> (\<exists>views.
         map (\<lambda>r. col r ''verified_by_ai'')
           (filter (\<lambda>r. col r ''key'' = SqlText ''speed'')
              (rows (formulas (snd (save_formula sample_env speed_formula_bare init_state)))))
           = [SqlNull]
       \<and> fst (get_formulas later_env (snd (save_formula sample_env speed_formula_bare init_state))) =
           Some \<lparr>status = 200,
                 body = JObj [(''success'', JBool True), (''formulas'', JArr views)]\<rparr>
       \<and> map (\<lambda>v. get_field v ''verified_by_ai'')
             (filter (\<lambda>v. get_field v ''key'' = Some (JStr ''speed'')) views)
           = [Some JNull])"
proof -
  have k: "stored_text (get_field speed_formula_bare ''key'') = SqlText ''speed''"
    by (simp add: speed_formula_bare_def stored_text_def bind_param_def apply_affinity_def)
  have j: "js_of_sql (SqlText ''speed'') = JStr ''speed''" by (simp add: js_of_sql_def)
  from formula_verified_by_ai_null [OF init_formulas_ok sample_formula_fields(8)
      sample_formula_fields(3,4,6) sample_envs(1,2,3)]
  have "\<exists>views.
         map (\<lambda>r. col r ''verified_by_ai'')
           (filter (\<lambda>r. col r ''key'' = SqlText ''speed'')
              (rows (formulas (snd (save_formula sample_env speed_formula_bare init_state)))))
           = [SqlNull]
       \<and> fst (get_formulas later_env (snd (save_formula sample_env speed_formula_bare init_state))) =
           Some \<lparr>status = 200,
                 body = JObj [(''success'', JBool True), (''formulas'', JArr views)]\<rparr>
       \<and> map (\<lambda>v. get_field v ''verified_by_ai'')
             (filter (\<lambda>v. get_field v ''key'' = Some (JStr ''speed'')) views)
           = [Some JNull]"
    unfolding k j by iprover
  then show ?thesis
    using init_formulas_ok sample_formula_fields(1-8) sample_envs(1-4) by iprover
qed

end
